theory Spec2Isabelle
  imports Main "HOL-Library.Word" "HOL-Library.Sublist" "HOL-Library.Multiset"
begin

section \<open>JavaScript strings\<close>

text \<open>
  A JavaScript string is a sequence of UTF-16 code units; \<open>.length\<close> counts code units.
  \<open>js\<close> turns an ASCII literal of the theory into such a string.
\<close>

type_synonym code_unit = "16 word"
type_synonym js_string = "code_unit list"

definition js :: "string \<Rightarrow> js_string" where
  "js s = map of_char s"

text \<open>\<open>String.prototype.includes\<close>: the argument occurs as a contiguous run.\<close>

definition str_includes :: "js_string \<Rightarrow> js_string \<Rightarrow> bool" where
  "str_includes str searchString = sublist searchString str"

text \<open>\<open>Array.prototype.join\<close> on an array of strings.\<close>

fun join :: "js_string list \<Rightarrow> js_string \<Rightarrow> js_string" where
  "join [] sep = []"
| "join [x] sep = x"
| "join (x # y # ys) sep = x @ sep @ join (y # ys) sep"

text \<open>
  White space as \<open>String.prototype.trim\<close> and the white-space class of regular
  expressions read it: the WhiteSpace and LineTerminator code points of ECMAScript.
\<close>

definition is_space :: "code_unit \<Rightarrow> bool" where
  "is_space c \<longleftrightarrow>
     c \<in> {0x09, 0x0A, 0x0B, 0x0C, 0x0D, 0x20, 0xA0, 0x1680, 0x2028, 0x2029, 0x202F, 0x205F,
          0x3000, 0xFEFF}
     \<or> (0x2000 \<le> c \<and> c \<le> 0x200A)"

definition trim :: "js_string \<Rightarrow> js_string" where
  "trim str = rev (dropWhile is_space (rev (dropWhile is_space str)))"

text \<open>
  \<open>str.replace(searchValue, replaceValue)\<close> with two strings: the first occurrence of
  \<open>searchValue\<close> is replaced, and the dollar patterns of the replacement are expanded
  (\<open>$$\<close>, \<open>$&\<close>, \<open>$`\<close>, \<open>$'\<close>; a string pattern has no capture groups, so every
  other dollar sequence stands for itself).
\<close>

fun indexOf :: "js_string \<Rightarrow> js_string \<Rightarrow> nat option" where
  "indexOf [] searchValue = (if searchValue = [] then Some 0 else None)"
| "indexOf (c # cs) searchValue =
     (if prefix searchValue (c # cs) then Some 0 else map_option Suc (indexOf cs searchValue))"

fun GetSubstitution :: "js_string \<Rightarrow> js_string \<Rightarrow> nat \<Rightarrow> js_string \<Rightarrow> js_string" where
  "GetSubstitution matched str position [] = []"
| "GetSubstitution matched str position [c] = [c]"
| "GetSubstitution matched str position (c # d # rest) =
     (if c = 0x24 \<and> d = 0x24 then 0x24 # GetSubstitution matched str position rest
      else if c = 0x24 \<and> d = 0x26 then matched @ GetSubstitution matched str position rest
      else if c = 0x24 \<and> d = 0x60 then take position str @ GetSubstitution matched str position rest
      else if c = 0x24 \<and> d = 0x27
        then drop (position + length matched) str @ GetSubstitution matched str position rest
      else c # GetSubstitution matched str position (d # rest))"

definition replace :: "js_string \<Rightarrow> js_string \<Rightarrow> js_string \<Rightarrow> js_string" where
  "replace str searchValue replaceValue =
     (case indexOf str searchValue of
        None \<Rightarrow> str
      | Some position \<Rightarrow>
          take position str @ GetSubstitution searchValue str position replaceValue
            @ drop (position + length searchValue) str)"

text \<open>
  The replacement \<open>serializeStylesheet\<close> makes with a regular expression (one white-space
  character, an opening brace, the end of the input): a white space before a final brace is
  removed.
\<close>

definition replace_space_brace :: "js_string \<Rightarrow> js_string" where
  "replace_space_brace str =
     (if 2 \<le> length str \<and> last str = 0x7B \<and> is_space (last (butlast str))
      then butlast (butlast str) @ js ''{'' else str)"

section \<open>The postcss rule tree\<close>

text \<open>
  A postcss node, with the fields \<open>css.js\<close> reads or writes. \<open>nodes\<close> is \<open>None\<close> where the
  JavaScript property is undefined (declarations, comments, body-less at-rules).
  \<open>other\<close> is the \<open>_other\<close> link to the twin of the mirrored tree: the twin is reachable
  from nowhere else once a mirrored walk has replaced the second tree's child arrays, so it
  is held by value. \<open>remove\<close> and \<open>markedSelectors\<close> are \<open>$$remove\<close> and
  \<open>$$markedSelectors\<close>. \<open>selectors\<close> is what a read of \<open>x.selectors\<close> returns; it is
  \<open>None\<close> on nodes that have none.
\<close>

datatype node_type = Root | AtRule | Rule | Decl | Comment

record attrs =
  ntype :: node_type
  name :: "js_string option"
  selectors :: "js_string list option"
  decl_prop :: js_string
  decl_value :: js_string
  raws_between :: "js_string option"
  raws_semicolon :: bool
  remove :: bool
  markedSelectors :: "js_string list option"

datatype node = Node (attrs: attrs) (nodes: "node list option") (other: "node option")

definition map_attrs :: "(attrs \<Rightarrow> attrs) \<Rightarrow> node \<Rightarrow> node" where
  "map_attrs f n = Node (f (attrs n)) (nodes n) (other n)"

definition set_nodes :: "node list option \<Rightarrow> node \<Rightarrow> node" where
  "set_nodes ns n = Node (attrs n) ns (other n)"

definition set_other :: "node option \<Rightarrow> node \<Rightarrow> node" where
  "set_other ot n = Node (attrs n) (nodes n) ot"

definition set_selectors :: "js_string list option \<Rightarrow> node \<Rightarrow> node" where
  "set_selectors sel = map_attrs (\<lambda>a. a\<lparr>selectors := sel\<rparr>)"

text \<open>
  On a rule, \<open>selectors\<close> is an accessor of postcss over the rule's selector string: an
  assignment joins the list into the string and a read splits the string at its commas.
  The split of the empty string is the list that holds the empty string, so a rule that
  has been assigned the empty list reads \<open>[""]\<close>. On a node that is not a rule
  \<open>selectors\<close> is a plain property. The model keeps the list a read returns; the
  selectors of the model stand for the entries of such a read, each trimmed and without a
  comma of its own, and a list of them that is not empty reads back as it was assigned.
  \<open>accessor_read n values\<close> is what \<open>n.selectors\<close> reads after \<open>n.selectors = values\<close>,
  and \<open>assign_selectors\<close> is that assignment.
\<close>

definition accessor_read :: "node \<Rightarrow> js_string list \<Rightarrow> js_string list" where
  "accessor_read n values = (if ntype (attrs n) = Rule \<and> values = [] then [[]] else values)"

definition assign_selectors :: "js_string list \<Rightarrow> node \<Rightarrow> node" where
  "assign_selectors values n = set_selectors (Some (accessor_read n values)) n"

datatype error = TypeError

section \<open>serializeStylesheet\<close>

text \<open>
  \<open>serializeStylesheet(ast, options)\<close> hands postcss's \<open>stringify\<close> a callback and
  returns the string the callback has accumulated. \<open>stringify\<close> belongs to postcss; it is
  a parameter here, read as the sequence of calls it makes to the callback for a tree. Each
  call carries the text \<open>result\<close>, the node it belongs to (or none) and, for the opening
  and closing of a block, the marker \<open>start\<close> or \<open>end\<close>.
\<close>

record options =
  compress :: bool

datatype builder_call =
    Plain js_string "node option"
  | Start js_string node
  | End js_string node

fun result :: "builder_call \<Rightarrow> js_string" where
  "result (Plain str n) = str"
| "result (Start str n) = str"
| "result (End str n) = str"

fun call_node :: "builder_call \<Rightarrow> node option" where
  "call_node (Plain str n) = n"
| "call_node (Start str n) = Some n"
| "call_node (End str n) = Some n"

definition node_is :: "node_type \<Rightarrow> node option \<Rightarrow> bool" where
  "node_is t n = (case n of None \<Rightarrow> False | Some n' \<Rightarrow> ntype (attrs n') = t)"

definition decl_prefix :: "node \<Rightarrow> js_string" where
  "decl_prefix n =
     decl_prop (attrs n) @ (case raws_between (attrs n) of None \<Rightarrow> js ''undefined'' | Some b \<Rightarrow> b)"

text \<open>The guard of the callback: the call is for a declaration whose value includes \<open></style>\<close>.\<close>

definition closes_style :: "builder_call \<Rightarrow> bool" where
  "closes_style call =
     (node_is Decl (call_node call)
      \<and> str_includes (decl_value (attrs (the (call_node call)))) (js ''</style>''))"

text \<open>One invocation of the callback: \<open>cssStr\<close> before, \<open>cssStr\<close> after.\<close>

definition builder :: "options \<Rightarrow> js_string \<Rightarrow> builder_call \<Rightarrow> js_string" where
  "builder opts cssStr call =
     (if closes_style call then cssStr
      else if \<not> compress opts then cssStr @ result call
      else if node_is Comment (call_node call) then cssStr
      else if node_is Decl (call_node call)
        then cssStr @ replace (result call) (decl_prefix (the (call_node call)))
                        (trim (decl_prefix (the (call_node call))))
      else
        (case call of
           Start str n \<Rightarrow>
             (if ntype (attrs n) = Rule \<and> selectors (attrs n) \<noteq> None
              then cssStr @ join (the (selectors (attrs n))) (js '','') @ js ''{''
              else cssStr @ replace_space_brace str)
         | End str n \<Rightarrow>
             (if str = js ''}'' \<and> raws_semicolon (attrs n) then butlast cssStr @ trim str
              else cssStr @ trim str)
         | Plain str n \<Rightarrow> cssStr @ trim str))"

definition serializeStylesheet :: "(node \<Rightarrow> builder_call list) \<Rightarrow> node \<Rightarrow> options \<Rightarrow> js_string" where
  "serializeStylesheet stringify ast opts = foldl (builder opts) [] (stringify ast)"

section \<open>splitFilter and filterSelectors\<close>

text \<open>
  \<open>splitFilter(a, b, predicate)\<close>: the loop over \<open>index\<close> from 0, pushing \<open>a[index]\<close> to
  \<open>aOut\<close> when \<open>predicate(a[index], index, a, b)\<close> holds and to \<open>bOut\<close> otherwise.
  \<open>splitFilter_from\<close> is the loop from position \<open>index\<close>, its first argument the elements
  of \<open>a\<close> from there on.
\<close>

fun splitFilter_from ::
  "'a list \<Rightarrow> nat \<Rightarrow> 'a list \<Rightarrow> 'b \<Rightarrow> ('a \<Rightarrow> nat \<Rightarrow> 'a list \<Rightarrow> 'b \<Rightarrow> bool) \<Rightarrow> 'a list \<times> 'a list" where
  "splitFilter_from [] index a b predicate = ([], [])"
| "splitFilter_from (item # rest) index a b predicate =
     (let (aOut, bOut) = splitFilter_from rest (Suc index) a b predicate
      in if predicate item index a b then (item # aOut, bOut) else (aOut, item # bOut))"

definition splitFilter ::
  "'a list \<Rightarrow> 'b \<Rightarrow> ('a \<Rightarrow> nat \<Rightarrow> 'a list \<Rightarrow> 'b \<Rightarrow> bool) \<Rightarrow> 'a list \<times> 'a list" where
  "splitFilter a b predicate = splitFilter_from a 0 a b predicate"

text \<open>
  \<open>Array.prototype.filter\<close> with a callback of \<open>(item, index, array)\<close>, as
  \<open>filterSelectors\<close> calls it when there is no twin.
\<close>

fun array_filter_from ::
  "'a list \<Rightarrow> nat \<Rightarrow> 'a list \<Rightarrow> ('a \<Rightarrow> nat \<Rightarrow> 'a list \<Rightarrow> bool) \<Rightarrow> 'a list" where
  "array_filter_from [] index a predicate = []"
| "array_filter_from (item # rest) index a predicate =
     (if predicate item index a then item # array_filter_from rest (Suc index) a predicate
      else array_filter_from rest (Suc index) a predicate)"

text \<open>
  \<open>filterSelectors\<close>, invoked on a rule (\<open>this\<close>): with a twin, the rule is assigned
  the selectors the predicate accepts and the twin the rejected ones; without one the
  rule is assigned the \<open>filter\<close> of its selectors. The predicate's fourth argument is the
  twin's selector list, undefined (\<open>None\<close>) when \<open>filter\<close> makes the call. Reading
  \<open>.length\<close> or \<open>.filter\<close> of an undefined selector list raises a TypeError.
\<close>

definition filterSelectors ::
  "(js_string \<Rightarrow> nat \<Rightarrow> js_string list \<Rightarrow> js_string list option \<Rightarrow> bool) \<Rightarrow> node \<Rightarrow> error + node" where
  "filterSelectors predicate this =
     (case other this of
        Some twin \<Rightarrow>
          (case selectors (attrs this) of
             None \<Rightarrow> Inl TypeError
           | Some sels \<Rightarrow>
               (let (a, b) = splitFilter sels (selectors (attrs twin)) predicate
                in Inr (set_other (Some (assign_selectors b twin))
                          (assign_selectors a this))))
      | None \<Rightarrow>
          (case selectors (attrs this) of
             None \<Rightarrow> Inl TypeError
           | Some sels \<Rightarrow>
               Inr (assign_selectors
                     (array_filter_from sels 0 sels (\<lambda>item index a. predicate item index a None))
                     this)))"

section \<open>Iterators, markOnly and applyMarkedSelectors\<close>

text \<open>
  The iterator handed to a walk is a JavaScript callback on a rule. It may change the rule
  it is given and, through \<open>_other\<close>, the rule's twin, and it may have state of its own
  (\<open>'s\<close>); it returns \<open>false\<close>, \<open>true\<close> or nothing. In the model it takes its state and
  the rule and returns its verdict, the rule as it has left it (twin included) and its new
  state. The walks assign \<open>filterSelectors\<close> to every rule they visit; it is the same
  function on every rule, so the model has no field for it and an iterator calls
  \<open>filterSelectors\<close> directly.
\<close>

datatype verdict = JFalse | JTrue | JUndefined

type_synonym 's iterator = "'s \<Rightarrow> node \<Rightarrow> verdict \<times> node \<times> 's"

text \<open>\<open>x.$$markedSelectors = x.selectors\<close>.\<close>

definition stash_selectors :: "node \<Rightarrow> node" where
  "stash_selectors n = map_attrs (\<lambda>a. a\<lparr>markedSelectors := selectors a\<rparr>) n"

text \<open>
  \<open>markOnly(predicate)\<close>: the iterator that runs \<open>predicate\<close>, sets \<open>$$remove\<close> when it
  returned \<open>false\<close>, stashes the selectors of the rule and of its twin in
  \<open>$$markedSelectors\<close>, puts the rule's selectors back and returns nothing. The list
  put back was read from the rule, so on a rule it is not empty and reads back as it is.
  (The TypeScript revision of the module skips the stash and the restore on a node that
  has no \<open>selectors\<close>; on a rule the two revisions do the same.)
\<close>

definition markOnly :: "'s iterator \<Rightarrow> 's iterator" where
  "markOnly predicate s rule =
     (let sel = selectors (attrs rule) in
      case predicate s rule of
        (v, rule1, s1) \<Rightarrow>
          (let rule2 = (if v = JFalse then map_attrs (\<lambda>a. a\<lparr>remove := True\<rparr>) rule1 else rule1);
               rule3 = stash_selectors rule2;
               rule4 = (case other rule3 of
                          None \<Rightarrow> rule3
                        | Some twin \<Rightarrow> set_other (Some (stash_selectors twin)) rule3)
           in (JUndefined, set_selectors sel rule4, s1)))"

text \<open>
  \<open>applyMarkedSelectors(rule)\<close>: a defined \<open>$$markedSelectors\<close> (an array, so truthy even
  when empty) becomes the rule's selectors, and the same is done to the twin. What
  \<open>markOnly\<close> stashed was read from the rule, so it reads back as it is.
\<close>

fun applyMarkedSelectors :: "node \<Rightarrow> node" where
  "applyMarkedSelectors (Node a ns ot) =
     Node (case markedSelectors a of None \<Rightarrow> a | Some marked \<Rightarrow> a\<lparr>selectors := Some marked\<rparr>)
       ns (map_option applyMarkedSelectors ot)"

section \<open>walkStyleRules and walkStyleRulesWithReverseMirror\<close>

text \<open>
  \<open>hasNestedRules(rule)\<close>: the rule has children, is not named \<open>keyframes\<close> or
  \<open>-webkit-keyframes\<close>, and one of its children is a rule or an at-rule.
\<close>

definition hasNestedRules :: "node \<Rightarrow> bool" where
  "hasNestedRules rule =
     (case nodes rule of
        None \<Rightarrow> False
      | Some ns \<Rightarrow>
          length ns \<noteq> 0
          \<and> name (attrs rule) \<noteq> Some (js ''keyframes'')
          \<and> name (attrs rule) \<noteq> Some (js ''-webkit-keyframes'')
          \<and> list_ex (\<lambda>n. ntype (attrs n) = Rule \<or> ntype (attrs n) = AtRule) ns)"

text \<open>
  \<open>walkStyleRules(node, iterator)\<close> replaces \<open>node.nodes\<close> by its \<open>filter\<close>;
  \<open>walkStyleRules_filter\<close> is that \<open>filter\<close> with its callback: walk the rule first when
  it has nested rules, clear \<open>_other\<close>, then keep the rule unless the iterator returns
  \<open>false\<close>. Calling \<open>.filter\<close> on an undefined \<open>nodes\<close> raises a TypeError (the
  TypeScript revision of the module returns at once instead); the recursive call is made
  only on a rule with children. The functions return the node as the walk has left it and
  the iterator's state; a TypeError abandons the walk, and the model then returns the error
  alone.
\<close>

fun walkStyleRules :: "node \<Rightarrow> 's iterator \<Rightarrow> 's \<Rightarrow> error + node \<times> 's"
  and walkStyleRules_filter :: "node list \<Rightarrow> 's iterator \<Rightarrow> 's \<Rightarrow> error + node list \<times> 's"
where
  "walkStyleRules (Node a None ot) iterator s = Inl TypeError"
| "walkStyleRules (Node a (Some ns) ot) iterator s =
     (case walkStyleRules_filter ns iterator s of
        Inl e \<Rightarrow> Inl e
      | Inr (kept, s') \<Rightarrow> Inr (Node a (Some kept) ot, s'))"
| "walkStyleRules_filter [] iterator s = Inr ([], s)"
| "walkStyleRules_filter (rule # rest) iterator s =
     (case (if hasNestedRules rule then walkStyleRules rule iterator s else Inr (rule, s)) of
        Inl e \<Rightarrow> Inl e
      | Inr (rule1, s1) \<Rightarrow>
          (case iterator s1 (set_other None rule1) of
             (v, rule2, s2) \<Rightarrow>
               (case walkStyleRules_filter rest iterator s2 of
                  Inl e \<Rightarrow> Inl e
                | Inr (kept, s3) \<Rightarrow> Inr (if v \<noteq> JFalse then rule2 # kept else kept, s3))))"

text \<open>
  The second argument of \<open>walkStyleRulesWithReverseMirror\<close>: \<open>null\<close>, \<open>undefined\<close> (the
  argument left out, or an index past the end of the twin's children) or a node.
\<close>

datatype twin_arg = JNull | JUndefinedArg | Twin node

text \<open>
  \<open>walkStyleRulesWithReverseMirror(node, node2, iterator)\<close> as \<open>css.js\<close> has it: only
  \<open>node2 === null\<close> falls back to \<open>walkStyleRules\<close>; an undefined \<open>node2\<close> reaches
  \<open>node2.nodes\<close> and raises a TypeError. Otherwise \<open>node.nodes\<close> and \<open>node2.nodes\<close>
  receive the two outputs of \<open>splitFilter(node.nodes, node2.nodes, callback)\<close>.
  \<open>mirror_splitFilter\<close> is that call of \<open>splitFilter\<close> with the walk's callback, from
  position \<open>index\<close> on: the callback reads the twin \<open>rules2[index]\<close> (a TypeError when
  \<open>rules2\<close> is undefined, \<open>undefined\<close> past its end), walks the pair when the rule has
  nested rules, sets \<open>_other\<close> to the twin and asks the iterator; \<open>splitFilter\<close> pushes the
  rule itself, an element of the first tree, to \<open>aOut\<close> or to \<open>bOut\<close>. So the second
  tree's children become the rejected rules of the first tree, and a twin stays reachable
  through its rule's \<open>_other\<close> only. (The TypeScript revision of the module tests
  \<open>!node2\<close> and reads \<open>rules2?.[index]\<close>, so there an undefined twin is treated as
  \<open>null\<close> is.)
\<close>

fun walkStyleRulesWithReverseMirror ::
    "node \<Rightarrow> twin_arg \<Rightarrow> 's iterator \<Rightarrow> 's \<Rightarrow> error + node \<times> twin_arg \<times> 's"
  and mirror_splitFilter ::
    "node list \<Rightarrow> nat \<Rightarrow> node list option \<Rightarrow> 's iterator \<Rightarrow> 's
       \<Rightarrow> error + node list \<times> node list \<times> 's"
where
  "walkStyleRulesWithReverseMirror node JNull iterator s =
     (case walkStyleRules node iterator s of
        Inl e \<Rightarrow> Inl e
      | Inr (node', s') \<Rightarrow> Inr (node', JNull, s'))"
| "walkStyleRulesWithReverseMirror node JUndefinedArg iterator s = Inl TypeError"
| "walkStyleRulesWithReverseMirror (Node a None ot) (Twin node2) iterator s = Inl TypeError"
| "walkStyleRulesWithReverseMirror (Node a (Some ns) ot) (Twin node2) iterator s =
     (case mirror_splitFilter ns 0 (nodes node2) iterator s of
        Inl e \<Rightarrow> Inl e
      | Inr (aOut, bOut, s') \<Rightarrow>
          Inr (Node a (Some aOut) ot, Twin (set_nodes (Some bOut) node2), s'))"
| "mirror_splitFilter [] index rules2 iterator s = Inr ([], [], s)"
| "mirror_splitFilter (rule # rest) index None iterator s = Inl TypeError"
| "mirror_splitFilter (rule # rest) index (Some rules2) iterator s =
     (let rule2 = (if index < length rules2 then Twin (rules2 ! index) else JUndefinedArg) in
      case (if hasNestedRules rule then walkStyleRulesWithReverseMirror rule rule2 iterator s
            else Inr (rule, rule2, s)) of
        Inl e \<Rightarrow> Inl e
      | Inr (rule1, rule2', s1) \<Rightarrow>
          (case iterator s1 (set_other (case rule2' of Twin t \<Rightarrow> Some t | _ \<Rightarrow> None) rule1) of
             (v, rule3, s2) \<Rightarrow>
               (case mirror_splitFilter rest (Suc index) (Some rules2) iterator s2 of
                  Inl e \<Rightarrow> Inl e
                | Inr (aOut, bOut, s3) \<Rightarrow>
                    Inr (if v \<noteq> JFalse then (rule3 # aOut, bOut, s3)
                         else (aOut, rule3 # bOut, s3)))))"

section \<open>validateMediaQuery\<close>

text \<open>
  A node of the tree \<open>postcss-media-query-parser\<close> returns: its type, its value and, for a
  container, its children. The parser belongs to that package and is a parameter of
  \<open>validateMediaQuery\<close>.
\<close>

datatype mq_node = MQNode (mq_type: js_string) (mq_value: js_string) (mq_nodes: "mq_node list option")

definition MEDIA_TYPES :: "js_string list" where
  "MEDIA_TYPES = [js ''all'', js ''print'', js ''screen'', js ''speech'']"

definition MEDIA_KEYWORDS :: "js_string list" where
  "MEDIA_KEYWORDS = [js ''and'', js ''not'', js '','']"

definition MEDIA_FEATURES :: "js_string list" where
  "MEDIA_FEATURES =
     concat (map (\<lambda>feature. [feature, js ''min-'' @ feature, js ''max-'' @ feature])
       [js ''width'', js ''aspect-ratio'', js ''color'', js ''color-index'', js ''grid'',
        js ''height'', js ''monochrome'', js ''orientation'', js ''resolution'', js ''scan''])"

text \<open>\<open>Set.prototype.has\<close> on a set built from an array literal.\<close>

definition has :: "js_string list \<Rightarrow> js_string \<Rightarrow> bool" where
  "has elems v = (v \<in> set elems)"

text \<open>\<open>validateMediaType\<close> returns undefined (\<open>None\<close>) for a node of any other type.\<close>

definition validateMediaType :: "mq_node \<Rightarrow> bool option" where
  "validateMediaType node =
     (if mq_type node = js ''media-type'' then Some (has MEDIA_TYPES (mq_value node))
      else if mq_type node = js ''keyword'' then Some (has MEDIA_KEYWORDS (mq_value node))
      else if mq_type node = js ''media-feature'' then Some (has MEDIA_FEATURES (mq_value node))
      else None)"

definition nodeTypes :: "js_string list" where
  "nodeTypes = [js ''media-type'', js ''keyword'', js ''media-feature'']"

text \<open>
  The loop of \<open>validateMediaQuery\<close> over its explicit stack: \<open>pop\<close> takes the last
  element, \<open>push(...node.nodes)\<close> appends the children.
\<close>

function validate_stack :: "mq_node list \<Rightarrow> bool" where
  "validate_stack stack =
     (if length stack > 0 then
        (let node = last stack; popped = butlast stack in
         if has nodeTypes (mq_type node) \<and> validateMediaType node \<noteq> Some True then False
         else validate_stack (case mq_nodes node of Some ns \<Rightarrow> popped @ ns | None \<Rightarrow> popped))
      else True)"
  by pat_completeness auto
termination
proof (relation "measure (size_list size)")
  show "wf (measure (size_list size))" by simp
next
  fix stack :: "mq_node list" and x xa
  assume ne: "0 < length stack" and x: "x = last stack" and xa: "xa = butlast stack"
  have split: "stack = butlast stack @ [last stack]"
    using ne by simp
  have "size_list size (case mq_nodes x of None \<Rightarrow> xa | Some ns \<Rightarrow> xa @ ns) < size_list size (butlast stack @ [last stack])"
    unfolding x xa by (cases "last stack") (auto simp: size_list_append split: option.splits)
  with split show "((case mq_nodes x of None \<Rightarrow> xa | Some ns \<Rightarrow> xa @ ns), stack) \<in> measure (size_list size)"
    by simp
qed

definition validateMediaQuery :: "(js_string \<Rightarrow> mq_node) \<Rightarrow> js_string \<Rightarrow> bool" where
  "validateMediaQuery mediaParser query = validate_stack [mediaParser query]"

text \<open>Every node of a parsed query: the node itself and the nodes below it.\<close>

fun mq_all :: "mq_node \<Rightarrow> mq_node list" where
  "mq_all (MQNode t v nso) =
     MQNode t v nso # (case nso of None \<Rightarrow> [] | Some ns \<Rightarrow> concat (map mq_all ns))"

text \<open>What the loop checks on one node.\<close>

definition token_ok :: "mq_node \<Rightarrow> bool" where
  "token_ok m = (has nodeTypes (mq_type m) \<longrightarrow> validateMediaType m = Some True)"

text \<open>The tokens the loop inspects: type and value of every node of the three checked types.\<close>

definition checked_tokens :: "mq_node \<Rightarrow> (js_string \<times> js_string) list" where
  "checked_tokens tree =
     map (\<lambda>m. (mq_type m, mq_value m)) (filter (\<lambda>m. has nodeTypes (mq_type m)) (mq_all tree))"

section \<open>BeastiesWebpackPlugin.pruneSource\<close>

text \<open>
  The webpack plugin's override of \<open>pruneSource\<close>. The state it touches is the
  compilation's asset table and the logger. \<open>isStyleInlined\<close> is what the base class's
  \<open>pruneSource\<close> returned; the base class is not among the sources, so its result is a
  parameter and its effects on the document lie outside this state.
  \<open>deleteAsset\<close> is webpack's, read as the removal of the entry.
  \<open>minimumExternalSize\<close> is a whole number, \<open>None\<close> when the option is not set (a
  number that is not zero is truthy); the size compared with it is \<open>sheetInverse.length\<close>,
  the length of the string.
\<close>

datatype source = RawSource js_string | SourceMapSource js_string js_string js_string

record style_element =
  asset :: "source option"
  assetName :: js_string
  style_name :: js_string

record plugin_options =
  minimumExternalSize :: "int option"

record compilation =
  assets :: "js_string \<rightharpoonup> source"
  warnings :: "js_string list"

text \<open>
  The size in bytes of a string written out as UTF-8, the encoding of an emitted
  stylesheet: one byte for a code unit below 0x80, two for one below 0x800, four for a
  surrogate pair and three for any other code unit (a lone surrogate is written as
  U+FFFD). The code does not compute it; it is here to compare with \<open>.length\<close>.
\<close>

definition unit_bytes :: "code_unit \<Rightarrow> nat" where
  "unit_bytes c = (if c < 0x80 then 1 else if c < 0x800 then 2 else 3)"

fun byte_size :: "js_string \<Rightarrow> nat" where
  "byte_size [] = 0"
| "byte_size [c] = unit_bytes c"
| "byte_size (c # d # rest) =
     (if 0xD800 \<le> c \<and> c \<le> 0xDBFF \<and> 0xDC00 \<le> d \<and> d \<le> 0xDFFF then 4 + byte_size rest
      else unit_bytes c + byte_size (d # rest))"

definition deleteAsset :: "js_string \<Rightarrow> compilation \<Rightarrow> compilation" where
  "deleteAsset file c = c\<lparr>assets := (assets c)(file := None)\<rparr>"

definition pruneSource ::
  "plugin_options \<Rightarrow> bool \<Rightarrow> style_element \<Rightarrow> js_string \<Rightarrow> js_string \<Rightarrow> compilation
     \<Rightarrow> bool \<times> compilation" where
  "pruneSource opts isStyleInlined style before sheetInverse c =
     (case asset style of
        Some a \<Rightarrow>
          (let minSize = minimumExternalSize opts in
           if (case minSize of None \<Rightarrow> False
               | Some m \<Rightarrow> m \<noteq> 0 \<and> int (length sheetInverse) < m)
           then (True, deleteAsset (assetName style) c)
           else (isStyleInlined,
                 c\<lparr>assets := (assets c)(assetName style \<mapsto>
                      SourceMapSource sheetInverse (assetName style) before)\<rparr>))
      | None \<Rightarrow>
          (isStyleInlined,
           c\<lparr>warnings := warnings c @
                [js ''pruneSource is enabled, but a style ('' @ style_name style
                   @ js '') has no corresponding Webpack asset.'']\<rparr>))"

section \<open>Observing a walk\<close>

text \<open>
  \<open>logged iterator\<close> behaves as \<open>iterator\<close> does and records, in order, every rule it is
  invoked on, as it is handed over.
\<close>

definition logged :: "'s iterator \<Rightarrow> ('s \<times> node list) iterator" where
  "logged iterator = (\<lambda>(s, log) rule.
     case iterator s rule of (v, rule', s') \<Rightarrow> (v, rule', (s', log @ [rule])))"

text \<open>
  The order the specification describes for a walk of the children of a node: for each
  child in turn, first the walk of its own children when it has nested rules, then the child
  itself.
\<close>

fun children_first :: "node \<Rightarrow> node list"
  and children_first_list :: "node list \<Rightarrow> node list"
where
  "children_first (Node a ns ot) = (case ns of None \<Rightarrow> [] | Some rs \<Rightarrow> children_first_list rs)"
| "children_first_list [] = []"
| "children_first_list (r # rest) =
     (if hasNestedRules r then children_first r else []) @ [r] @ children_first_list rest"

text \<open>
  A rule is handed over as the node \<open>r\<close> of the tree when it has \<open>r\<close>'s own fields and, unless
  \<open>r\<close> was walked first, \<open>r\<close>'s children.
\<close>

definition handed :: "node \<Rightarrow> node \<Rightarrow> bool" where
  "handed e r \<longleftrightarrow> attrs e = attrs r \<and> (\<not> hasNestedRules r \<longrightarrow> nodes e = nodes r)"

text \<open>Every node below a node, through \<open>nodes\<close>.\<close>

fun subnodes :: "node \<Rightarrow> node list"
  and subnodes_list :: "node list \<Rightarrow> node list"
where
  "subnodes (Node a ns ot) = (case ns of None \<Rightarrow> [] | Some rs \<Rightarrow> subnodes_list rs)"
| "subnodes_list [] = []"
| "subnodes_list (r # rest) = r # subnodes r @ subnodes_list rest"

text \<open>Two trees of the same shape, as a stylesheet and its second parse are.\<close>

fun same_shape :: "node \<Rightarrow> node \<Rightarrow> bool" where
  "same_shape (Node a ns ot) (Node a2 ns2 ot2) =
     (case (ns, ns2) of
        (None, None) \<Rightarrow> True
      | (Some rs, Some rs2) \<Rightarrow> list_all2 same_shape rs rs2
      | _ \<Rightarrow> False)"

text \<open>The blocks \<open>hasNestedRules\<close> exempts by name.\<close>

definition is_keyframes :: "node \<Rightarrow> bool" where
  "is_keyframes r \<longleftrightarrow>
     name (attrs r) = Some (js ''keyframes'') \<or> name (attrs r) = Some (js ''-webkit-keyframes'')"

text \<open>An iterator that leaves the children and the name of the rule it is given alone.\<close>

definition keeps_children :: "'s iterator \<Rightarrow> bool" where
  "keeps_children it \<longleftrightarrow>
     (\<forall>s r. nodes (fst (snd (it s r))) = nodes r
            \<and> name (attrs (fst (snd (it s r)))) = name (attrs r))"

text \<open>Every keyframes block among \<open>out\<close> has the children of a keyframes block among \<open>inp\<close>.\<close>

definition keyframes_whole :: "node list \<Rightarrow> node list \<Rightarrow> bool" where
  "keyframes_whole out inp \<longleftrightarrow>
     (\<forall>k \<in> set out. is_keyframes k \<longrightarrow> (\<exists>k0 \<in> set inp. is_keyframes k0 \<and> nodes k0 = nodes k))"

section \<open>Example trees\<close>

definition blank :: attrs where
  "blank = \<lparr>ntype = Rule, name = None, selectors = None, decl_prop = [], decl_value = [],
            raws_between = None, raws_semicolon = False, remove = False, markedSelectors = None\<rparr>"

definition rule_node :: "js_string list \<Rightarrow> node list \<Rightarrow> node" where
  "rule_node sels ns = Node (blank\<lparr>ntype := Rule, selectors := Some sels\<rparr>) (Some ns) None"

definition decl_node :: "js_string \<Rightarrow> js_string \<Rightarrow> node" where
  "decl_node p v =
     Node (blank\<lparr>ntype := Decl, decl_prop := p, decl_value := v, raws_between := Some (js '': '')\<rparr>)
       None None"

definition example_rule :: node where
  "example_rule =
     Node (blank\<lparr>ntype := Rule, selectors := Some [js ''a'']\<rparr>)
       (Some [decl_node (js ''color'') (js ''red''),
              decl_node (js ''background'') (js ''url(</style><script>alert(1)</script>)'')])
       None"

definition example_calls :: "builder_call list" where
  "example_calls =
     [Start (js ''a {'') example_rule,
      Plain (js ''color: red;'') (Some (decl_node (js ''color'') (js ''red''))),
      Plain (js ''background: url(</style><script>alert(1)</script>)'')
        (Some (decl_node (js ''background'') (js ''url(</style><script>alert(1)</script>)''))),
      End (js ''}'') example_rule]"

definition mq_leaf :: "string \<Rightarrow> string \<Rightarrow> mq_node" where
  "mq_leaf t v = MQNode (js t) (js v) None"

definition mq_container :: "string \<Rightarrow> string \<Rightarrow> mq_node list \<Rightarrow> mq_node" where
  "mq_container t v ns = MQNode (js t) (js v) (Some ns)"

definition min_width_query :: "string \<Rightarrow> mq_node" where
  "min_width_query v =
     mq_container ''media-query-list'' ''q''
       [mq_container ''media-query'' ''q''
         [mq_leaf ''media-type'' ''screen'', mq_leaf ''keyword'' ''and'',
          mq_container ''media-feature-expression'' ''e''
            [mq_leaf ''media-feature'' ''min-width'', mq_leaf ''colon'' '':'', mq_leaf ''value'' v]]]"

definition example_style :: style_element where
  "example_style = \<lparr>asset = Some (RawSource (js ''h1{color:red}h2{color:blue}'')),
                    assetName = js ''main.css'', style_name = js ''main.css''\<rparr>"

definition example_compilation :: compilation where
  "example_compilation =
     \<lparr>assets = [js ''main.css'' \<mapsto> RawSource (js ''h1{color:red}h2{color:blue}'')], warnings = []\<rparr>"

text \<open>A sheet with a letter outside ASCII, U+00E9, in a class name.\<close>

definition accented_sheet :: js_string where
  "accented_sheet = js ''.caf'' @ [0xE9] @ js ''{color:red}''"

definition atrule_node :: "js_string \<Rightarrow> node list \<Rightarrow> node" where
  "atrule_node nm ns = Node (blank\<lparr>ntype := AtRule, name := Some nm\<rparr>) (Some ns) None"

definition root_node :: "node list \<Rightarrow> node" where
  "root_node ns = Node (blank\<lparr>ntype := Root\<rparr>) (Some ns) None"

definition step_rule :: "string \<Rightarrow> string \<Rightarrow> node" where
  "step_rule sel v = rule_node [js sel] [decl_node (js ''opacity'') (js v)]"

text \<open>A rule wired to a twin that is its copy.\<close>

definition paired :: "node \<Rightarrow> node" where
  "paired n = set_other (Some n) n"

definition example_media :: node where
  "example_media = atrule_node (js ''media'') [step_rule ''h1'' ''1'', step_rule ''h2'' ''1'']"

definition example_keyframes :: node where
  "example_keyframes = atrule_node (js ''keyframes'') [step_rule ''from'' ''0'', step_rule ''to'' ''1'']"

definition example_sheet :: node where
  "example_sheet = root_node [example_media, example_keyframes, step_rule ''p'' ''1'']"

definition moz_keyframes :: node where
  "moz_keyframes = atrule_node (js ''-moz-keyframes'') [step_rule ''from'' ''0'', step_rule ''to'' ''1'']"

definition paired_rule :: node where
  "paired_rule = paired (rule_node [js ''h1'', js ''h2''] [])"

text \<open>Iterators for the examples; none has state.\<close>

definition keep_all :: "unit iterator" where
  "keep_all s rule = (JTrue, rule, s)"

definition reject_all :: "unit iterator" where
  "reject_all s rule = (JFalse, rule, s)"

definition drop_h2_and_to :: "unit iterator" where
  "drop_h2_and_to s rule =
     (if selectors (attrs rule) = Some [js ''h2''] \<or> selectors (attrs rule) = Some [js ''to'']
      then JFalse else JTrue, rule, s)"

definition drop_unused :: "unit iterator" where
  "drop_unused s rule =
     (if selectors (attrs rule) = Some [js ''h2''] \<or> selectors (attrs rule) = Some [js ''to'']
         \<or> name (attrs rule) = Some (js ''keyframes'')
      then JFalse else JTrue, rule, s)"

text \<open>
  An iterator that filters the rule's selectors down to one wanted selector and rejects
  the rule when none is left, the rule then reading \<open>[""]\<close>.
\<close>

definition keep_only :: "js_string \<Rightarrow> unit iterator" where
  "keep_only wanted s rule =
     (case filterSelectors (\<lambda>sel index a b. sel = wanted) rule of
        Inl e \<Rightarrow> (JTrue, rule, s)
      | Inr rule' \<Rightarrow> (if selectors (attrs rule') = Some [[]] then JFalse else JTrue, rule', s))"

definition summary :: "node \<Rightarrow> node_type \<times> js_string option \<times> js_string list option" where
  "summary n = (ntype (attrs n), name (attrs n), selectors (attrs n))"

text \<open>The trees the walks of the examples leave.\<close>

definition example_walked :: node where
  "example_walked =
     root_node [atrule_node (js ''media'') [step_rule ''h1'' ''1''], example_keyframes,
                step_rule ''p'' ''1'']"

definition example_critical :: node where
  "example_critical =
     root_node
       [set_other (Some (atrule_node (js ''media'') [paired (step_rule ''h2'' ''1'')]))
          (atrule_node (js ''media'') [paired (step_rule ''h1'' ''1'')]),
        paired (step_rule ''p'' ''1'')]"

definition example_rest :: node where
  "example_rest = root_node [paired example_keyframes]"

section \<open>Properties of serializeStylesheet\<close>

lemma builder_closes_style: "closes_style call \<Longrightarrow> builder opts cssStr call = cssStr"
  by (simp add: builder_def)

lemma foldl_builder_filter:
  "foldl (builder opts) acc calls = foldl (builder opts) acc (filter (\<lambda>c. \<not> closes_style c) calls)"
  by (induction calls arbitrary: acc) (simp_all add: builder_closes_style)

lemma foldl_builder_plain:
  "\<not> compress opts \<Longrightarrow>
   foldl (builder opts) acc calls = acc @ concat (map result (filter (\<lambda>c. \<not> closes_style c) calls))"
  by (induction calls arbitrary: acc) (simp_all add: builder_def)

text \<open>
  Claim C1. Whatever calls \<open>stringify\<close> makes for a tree and whether or not \<open>compress\<close> is
  set, the string \<open>serializeStylesheet\<close> returns is the one it would return had the calls
  for declarations whose value includes \<open></style>\<close> never been made: such a declaration is
  left out, not escaped (the callback returns with \<open>cssStr\<close> unchanged). Every other
  declaration is emitted: the callback appends its text, as it stands without \<open>compress\<close>
  and with the separator after the property trimmed with it; without \<open>compress\<close> the whole
  output is the concatenation of the texts of all other calls.
\<close>

theorem serializeStylesheet_drops_style_close:
  "serializeStylesheet stringify ast opts
     = foldl (builder opts) [] (filter (\<lambda>c. \<not> closes_style c) (stringify ast))
   \<and> (\<not> compress opts \<longrightarrow>
        serializeStylesheet stringify ast opts
          = concat (map result (filter (\<lambda>c. \<not> closes_style c) (stringify ast))))
   \<and> (closes_style call \<longrightarrow> builder opts cssStr call = cssStr)
   \<and> (node_is Decl (call_node call) \<and> \<not> closes_style call \<longrightarrow>
        builder opts cssStr call
          = cssStr @ (if compress opts
                      then replace (result call) (decl_prefix (the (call_node call)))
                             (trim (decl_prefix (the (call_node call))))
                      else result call))"
proof (intro conjI impI)
  show "serializeStylesheet stringify ast opts
     = foldl (builder opts) [] (filter (\<lambda>c. \<not> closes_style c) (stringify ast))"
    unfolding serializeStylesheet_def by (rule foldl_builder_filter)
next
  assume "\<not> compress opts"
  then show "serializeStylesheet stringify ast opts
          = concat (map result (filter (\<lambda>c. \<not> closes_style c) (stringify ast)))"
    by (simp add: serializeStylesheet_def foldl_builder_plain)
next
  assume "closes_style call"
  then show "builder opts cssStr call = cssStr"
    by (rule builder_closes_style)
next
  assume h: "node_is Decl (call_node call) \<and> \<not> closes_style call"
  have "\<not> node_is Comment (call_node call)"
    using h by (auto simp: node_is_def split: option.splits)
  with h show "builder opts cssStr call
          = cssStr @ (if compress opts
                      then replace (result call) (decl_prefix (the (call_node call)))
                             (trim (decl_prefix (the (call_node call))))
                      else result call)"
    by (simp add: builder_def)
qed

lemma example_plain:
  "concat (map result (filter (\<lambda>c. \<not> closes_style c) example_calls)) = js ''a {color: red;}''"
  by code_simp

lemma example_compressed:
  "foldl (builder \<lparr>compress = True\<rparr>) [] (filter (\<lambda>c. \<not> closes_style c) example_calls)
     = js ''a{color:red;}''"
  by code_simp

lemma example_closing_call:
  "closes_style (Plain (js ''background: url(</style><script>alert(1)</script>)'')
     (Some (decl_node (js ''background'') (js ''url(</style><script>alert(1)</script>)''))))"
  by code_simp

lemma example_other_call:
  "node_is Decl (call_node (Plain (js ''color: red;'') (Some (decl_node (js ''color'') (js ''red'')))))
   \<and> \<not> closes_style (Plain (js ''color: red;'') (Some (decl_node (js ''color'') (js ''red''))))"
  by code_simp

lemma example_other_call_text:
  "replace (js ''color: red;'') (decl_prefix (decl_node (js ''color'') (js ''red'')))
     (trim (decl_prefix (decl_node (js ''color'') (js ''red'')))) = js ''color:red;''"
  by code_simp

theorem serializeStylesheet_drops_style_close_witness:
  "serializeStylesheet (\<lambda>ast. example_calls) example_rule \<lparr>compress = False\<rparr> = js ''a {color: red;}''
   \<and> serializeStylesheet (\<lambda>ast. example_calls) example_rule \<lparr>compress = True\<rparr> = js ''a{color:red;}''
   \<and> builder \<lparr>compress = True\<rparr> (js ''a{'')
         (Plain (js ''background: url(</style><script>alert(1)</script>)'')
            (Some (decl_node (js ''background'') (js ''url(</style><script>alert(1)</script>)''))))
       = js ''a{''
   \<and> builder \<lparr>compress = True\<rparr> (js ''a{'')
         (Plain (js ''color: red;'') (Some (decl_node (js ''color'') (js ''red''))))
       = js ''a{'' @ js ''color:red;''"
  using serializeStylesheet_drops_style_close
      [of "\<lambda>ast. example_calls" example_rule "\<lparr>compress = False\<rparr>" "Plain [] None" "[]",
       THEN conjunct2, THEN conjunct1]
    serializeStylesheet_drops_style_close
      [of "\<lambda>ast. example_calls" example_rule "\<lparr>compress = True\<rparr>" "Plain [] None" "[]",
       THEN conjunct1]
    serializeStylesheet_drops_style_close
      [of "\<lambda>ast. example_calls" example_rule "\<lparr>compress = True\<rparr>"
          "Plain (js ''background: url(</style><script>alert(1)</script>)'')
            (Some (decl_node (js ''background'') (js ''url(</style><script>alert(1)</script>)'')))"
          "js ''a{''",
       THEN conjunct2, THEN conjunct2, THEN conjunct1]
    serializeStylesheet_drops_style_close
      [of "\<lambda>ast. example_calls" example_rule "\<lparr>compress = True\<rparr>"
          "Plain (js ''color: red;'') (Some (decl_node (js ''color'') (js ''red'')))"
          "js ''a{''",
       THEN conjunct2, THEN conjunct2, THEN conjunct2]
    example_closing_call example_other_call
  by (simp only: example_plain example_compressed example_other_call_text options.simps
        call_node.simps result.simps option.sel simp_thms if_True)

section \<open>Properties of splitFilter and filterSelectors\<close>

lemma attrs_set_other [simp]: "attrs (set_other ot n) = attrs n"
  by (simp add: set_other_def)

lemma nodes_set_other [simp]: "nodes (set_other ot n) = nodes n"
  by (simp add: set_other_def)

lemma other_set_other [simp]: "other (set_other ot n) = ot"
  by (simp add: set_other_def)

lemma attrs_set_nodes [simp]: "attrs (set_nodes ns n) = attrs n"
  by (simp add: set_nodes_def)

lemma nodes_set_nodes [simp]: "nodes (set_nodes ns n) = ns"
  by (simp add: set_nodes_def)

lemma other_set_nodes [simp]: "other (set_nodes ns n) = other n"
  by (simp add: set_nodes_def)

lemma selectors_set_selectors [simp]: "selectors (attrs (set_selectors sel n)) = sel"
  by (simp add: set_selectors_def map_attrs_def)

lemma nodes_set_selectors [simp]: "nodes (set_selectors sel n) = nodes n"
  by (simp add: set_selectors_def map_attrs_def)

lemma other_set_selectors [simp]: "other (set_selectors sel n) = other n"
  by (simp add: set_selectors_def map_attrs_def)

lemma splitFilter_from_eq:
  "splitFilter_from xs k a b p =
     (map fst (filter (\<lambda>(x, i). p x i a b) (zip xs [k..<k + length xs])),
      map fst (filter (\<lambda>(x, i). \<not> p x i a b) (zip xs [k..<k + length xs])))"
proof (induction xs arbitrary: k)
  case Nil
  then show ?case by simp
next
  case (Cons x xs)
  have "[k..<k + length (x # xs)] = k # [Suc k..<Suc k + length xs]"
    by (subst upt_rec) simp
  then show ?case using Cons.IH [of "Suc k"] by simp
qed

lemma zip_upt_nth: "zip a [0..<length a] = map (\<lambda>i. (a ! i, i)) [0..<length a]"
  by (rule nth_equalityI) simp_all

lemma splitFilter_index:
  "splitFilter a b p =
     (map ((!) a) (filter (\<lambda>i. p (a ! i) i a b) [0..<length a]),
      map ((!) a) (filter (\<lambda>i. \<not> p (a ! i) i a b) [0..<length a]))"
  unfolding splitFilter_def splitFilter_from_eq
  by (simp add: zip_upt_nth filter_map comp_def)

lemma splitFilter_from_mset:
  "mset (fst (splitFilter_from xs k a b p)) + mset (snd (splitFilter_from xs k a b p)) = mset xs"
proof (induction xs arbitrary: k)
  case Nil
  then show ?case by simp
next
  case (Cons x xs)
  obtain u v where uv: "splitFilter_from xs (Suc k) a b p = (u, v)"
    by (cases "splitFilter_from xs (Suc k) a b p")
  with Cons.IH [of "Suc k"] show ?case by simp
qed

lemma splitFilter_from_pure:
  "splitFilter_from xs k a b (\<lambda>item index a b. q item) = (filter q xs, filter (\<lambda>x. \<not> q x) xs)"
  by (induction xs arbitrary: k) auto

lemma attrs_assign_selectors:
  "attrs (assign_selectors values n) = (attrs n)\<lparr>selectors := Some (accessor_read n values)\<rparr>"
  by (simp add: assign_selectors_def set_selectors_def map_attrs_def)

lemma nodes_assign_selectors [simp]: "nodes (assign_selectors values n) = nodes n"
  by (simp add: assign_selectors_def)

lemma other_assign_selectors [simp]: "other (assign_selectors values n) = other n"
  by (simp add: assign_selectors_def)

lemma filterSelectors_twin:
  assumes "other this = Some twin" and "selectors (attrs this) = Some sels"
  shows "filterSelectors sp this =
           Inr (set_other (Some (assign_selectors (snd (splitFilter sels (selectors (attrs twin)) sp)) twin))
                  (assign_selectors (fst (splitFilter sels (selectors (attrs twin)) sp)) this))"
  using assms by (simp add: filterSelectors_def split: prod.splits)

text \<open>
  Claim C2, as amended. \<open>splitFilter(a, b, p)\<close> returns the elements of \<open>a\<close> at the
  positions where \<open>p\<close> holds as \<open>aOut\<close> and those at the other positions as \<open>bOut\<close>, both in
  the order of \<open>a\<close>: every position of \<open>a\<close> goes to exactly one of the two, so the two
  outputs together hold the elements of \<open>a\<close> with their multiplicities, none lost and none
  duplicated (for every \<open>b\<close>, lists of the length of \<open>a\<close> among them). When \<open>p\<close> looks at
  the element only, the outputs are \<open>filter\<close> and its complement, and no value is in both.
  Consequently \<open>filterSelectors\<close> on a rule with a twin assigns the accepted selectors to
  the rule and the rejected ones to the twin, and the two lists it assigns together are
  exactly the rule's selector list. A side that is assigned at least one selector reads
  back the list it was assigned; a rule that is assigned none reads \<open>[""]\<close>.
\<close>

theorem splitFilter_partition:
  "splitFilter a b predicate =
     (map ((!) a) (filter (\<lambda>i. predicate (a ! i) i a b) [0..<length a]),
      map ((!) a) (filter (\<lambda>i. \<not> predicate (a ! i) i a b) [0..<length a]))
   \<and> mset (fst (splitFilter a b predicate)) + mset (snd (splitFilter a b predicate)) = mset a
   \<and> splitFilter a b (\<lambda>item index a b. q item) = (filter q a, filter (\<lambda>x. \<not> q x) a)
   \<and> set (fst (splitFilter a b (\<lambda>item index a b. q item)))
        \<inter> set (snd (splitFilter a b (\<lambda>item index a b. q item))) = {}
   \<and> (other this = Some twin \<and> selectors (attrs this) = Some sels \<longrightarrow>
        (\<exists>this' twin' aOut bOut.
           filterSelectors sp this = Inr this' \<and> other this' = Some twin'
           \<and> (aOut, bOut) = splitFilter sels (selectors (attrs twin)) sp
           \<and> mset aOut + mset bOut = mset sels
           \<and> this' = set_other (Some twin') (assign_selectors aOut this)
           \<and> twin' = assign_selectors bOut twin
           \<and> selectors (attrs this')
               = Some (if ntype (attrs this) = Rule \<and> aOut = [] then [[]] else aOut)
           \<and> selectors (attrs twin')
               = Some (if ntype (attrs twin) = Rule \<and> bOut = [] then [[]] else bOut)))"
proof (intro conjI impI)
  show "splitFilter a b predicate =
     (map ((!) a) (filter (\<lambda>i. predicate (a ! i) i a b) [0..<length a]),
      map ((!) a) (filter (\<lambda>i. \<not> predicate (a ! i) i a b) [0..<length a]))"
    by (rule splitFilter_index)
  show "mset (fst (splitFilter a b predicate)) + mset (snd (splitFilter a b predicate)) = mset a"
    by (simp add: splitFilter_def splitFilter_from_mset)
  show "splitFilter a b (\<lambda>item index a b. q item) = (filter q a, filter (\<lambda>x. \<not> q x) a)"
    by (simp add: splitFilter_def splitFilter_from_pure)
  show "set (fst (splitFilter a b (\<lambda>item index a b. q item)))
        \<inter> set (snd (splitFilter a b (\<lambda>item index a b. q item))) = {}"
    by (auto simp add: splitFilter_def splitFilter_from_pure)
next
  assume h: "other this = Some twin \<and> selectors (attrs this) = Some sels"
  let ?r = "splitFilter sels (selectors (attrs twin)) sp"
  let ?twin' = "assign_selectors (snd ?r) twin"
  let ?this' = "set_other (Some ?twin') (assign_selectors (fst ?r) this)"
  have f: "filterSelectors sp this = Inr ?this'"
    using h by (simp add: filterSelectors_twin)
  have m: "mset (fst ?r) + mset (snd ?r) = mset sels"
    by (simp add: splitFilter_def splitFilter_from_mset)
  have a: "selectors (attrs ?this')
             = Some (if ntype (attrs this) = Rule \<and> fst ?r = [] then [[]] else fst ?r)"
    by (simp add: attrs_assign_selectors accessor_read_def)
  have b: "selectors (attrs ?twin')
             = Some (if ntype (attrs twin) = Rule \<and> snd ?r = [] then [[]] else snd ?r)"
    by (simp add: attrs_assign_selectors accessor_read_def)
  have o: "other ?this' = Some ?twin'" by simp
  have p: "(fst ?r, snd ?r) = ?r" by simp
  show "\<exists>this' twin' aOut bOut.
           filterSelectors sp this = Inr this' \<and> other this' = Some twin'
           \<and> (aOut, bOut) = splitFilter sels (selectors (attrs twin)) sp
           \<and> mset aOut + mset bOut = mset sels
           \<and> this' = set_other (Some twin') (assign_selectors aOut this)
           \<and> twin' = assign_selectors bOut twin
           \<and> selectors (attrs this')
               = Some (if ntype (attrs this) = Rule \<and> aOut = [] then [[]] else aOut)
           \<and> selectors (attrs twin')
               = Some (if ntype (attrs twin) = Rule \<and> bOut = [] then [[]] else bOut)"
    by (intro exI [of _ ?this'] exI [of _ ?twin'] exI [of _ "fst ?r"] exI [of _ "snd ?r"] conjI)
       (rule f, rule o, rule p, rule m, rule refl, rule refl, rule a, rule b)
qed

lemma example_filterSelectors:
  "map_sum id (\<lambda>this'. (selectors (attrs this'), map_option (\<lambda>t. selectors (attrs t)) (other this')))
       (filterSelectors (\<lambda>sel index a b. index \<noteq> 1)
          (set_other (Some (rule_node [js ''h1'', js ''.x'', js ''h1''] []))
             (rule_node [js ''h1'', js ''.x'', js ''h1''] [])))
     = Inr (Some [js ''h1'', js ''h1''], Some (Some [js ''.x'']))"
  by code_simp

theorem splitFilter_partition_witness:
  "splitFilter [js ''h1'', js ''.x'', js ''h1''] [js ''h1'', js ''.x'', js ''h1'']
       (\<lambda>sel index a b. index \<noteq> 1)
     = ([js ''h1'', js ''h1''], [js ''.x''])
   \<and> map_sum id (\<lambda>this'. (selectors (attrs this'), map_option (\<lambda>t. selectors (attrs t)) (other this')))
       (filterSelectors (\<lambda>sel index a b. index \<noteq> 1)
          (set_other (Some (rule_node [js ''h1'', js ''.x'', js ''h1''] []))
             (rule_node [js ''h1'', js ''.x'', js ''h1''] [])))
     = Inr (Some [js ''h1'', js ''h1''], Some (Some [js ''.x'']))"
  using splitFilter_partition [of "[js ''h1'', js ''.x'', js ''h1'']"
      "[js ''h1'', js ''.x'', js ''h1'']" "\<lambda>sel index a b. index \<noteq> 1" "\<lambda>x. True"
      "set_other (Some (rule_node [js ''h1'', js ''.x'', js ''h1''] []))
          (rule_node [js ''h1'', js ''.x'', js ''h1''] [])"
      "rule_node [js ''h1'', js ''.x'', js ''h1''] []"
      "[js ''h1'', js ''.x'', js ''h1'']" "\<lambda>sel index a b. index \<noteq> 1"]
    example_filterSelectors
  by (simp add: splitFilter_def)

text \<open>
  Claim C2 as stated fails on the lists the two rules hold afterwards when one side is
  left with no selector: on a rule with the single selector \<open>h1\<close> and a predicate that
  accepts it, the rule reads \<open>["h1"]\<close> and the twin reads \<open>[""]\<close>, so the two lists
  together hold a selector, the empty one, that the rule did not have.
\<close>

theorem filterSelectors_emptied_side:
  "selectors (attrs (paired (rule_node [js ''h1''] []))) = Some [js ''h1'']
   \<and> map_sum id (\<lambda>this'. (selectors (attrs this'), map_option (\<lambda>t. selectors (attrs t)) (other this')))
       (filterSelectors (\<lambda>sel index a b. True) (paired (rule_node [js ''h1''] [])))
     = Inr (Some [js ''h1''], Some (Some [[]]))
   \<and> mset [js ''h1''] + mset [[]] \<noteq> mset [js ''h1'']"
proof -
  have "selectors (attrs (paired (rule_node [js ''h1''] []))) = Some [js ''h1'']
   \<and> map_sum id (\<lambda>this'. (selectors (attrs this'), map_option (\<lambda>t. selectors (attrs t)) (other this')))
       (filterSelectors (\<lambda>sel index a b. True) (paired (rule_node [js ''h1''] [])))
     = Inr (Some [js ''h1''], Some (Some [[]]))"
    by code_simp
  then show ?thesis by simp
qed

section \<open>Properties of markOnly\<close>

lemma attrs_set_selectors: "attrs (set_selectors sel n) = (attrs n)\<lparr>selectors := sel\<rparr>"
  by (simp add: set_selectors_def map_attrs_def)

lemma attrs_map_attrs [simp]: "attrs (map_attrs f n) = f (attrs n)"
  by (simp add: map_attrs_def)

lemma nodes_map_attrs [simp]: "nodes (map_attrs f n) = nodes n"
  by (simp add: map_attrs_def)

lemma other_map_attrs [simp]: "other (map_attrs f n) = other n"
  by (simp add: map_attrs_def)

lemma hasNestedRules_nodes: "hasNestedRules r \<Longrightarrow> \<exists>rs. nodes r = Some rs"
  by (auto simp: hasNestedRules_def split: option.splits)

lemma walk_total:
  "nodes n \<noteq> None \<Longrightarrow> \<exists>n' s'. walkStyleRules n it s = Inr (n', s') \<and> attrs n' = attrs n \<and> other n' = other n \<and> nodes n' \<noteq> None"
  "\<exists>kept s'. walkStyleRules_filter rs it s = Inr (kept, s')"
proof (induction n it s and rs it s rule: walkStyleRules_walkStyleRules_filter.induct)
  case (1 a ot iterator s)
  then show ?case by simp
next
  case (2 a ns ot iterator s)
  then show ?case by auto
next
  case (3 iterator s)
  then show ?case by simp
next
  case (4 rule rest iterator s)
  show ?case
  proof (cases "hasNestedRules rule")
    case True
    then obtain n' s' where w: "walkStyleRules rule iterator s = Inr (n', s')"
      using "4.IH"(1) hasNestedRules_nodes by fastforce
    obtain v r2 s2 where it: "iterator s' (set_other None n') = (v, r2, s2)"
      by (cases "iterator s' (set_other None n')")
    from "4.IH"(2) [of "(n', s')" n' s' v "(r2, s2)" r2 s2] True w it
    obtain kept s3 where "walkStyleRules_filter rest iterator s2 = Inr (kept, s3)"
      by auto
    with True w it show ?thesis by simp
  next
    case False
    obtain v r2 s2 where it: "iterator s (set_other None rule) = (v, r2, s2)"
      by (cases "iterator s (set_other None rule)")
    from "4.IH"(2) [of "(rule, s)" rule s v "(r2, s2)" r2 s2] False it
    obtain kept s3 where "walkStyleRules_filter rest iterator s2 = Inr (kept, s3)"
      by auto
    with False it show ?thesis by simp
  qed
qed

lemma walk_markOnly_keeps:
  "nodes n \<noteq> None \<Longrightarrow> walkStyleRules n (markOnly p) s = Inr (n', s') \<Longrightarrow> map_option length (nodes n') = map_option length (nodes n)"
  "walkStyleRules_filter rs (markOnly p) s = Inr (kept, s') \<Longrightarrow> length kept = length rs"
proof (induction n "markOnly p" s and rs "markOnly p" s arbitrary: n' s' and kept s'
         rule: walkStyleRules_walkStyleRules_filter.induct)
  case (1 a ot s)
  then show ?case by simp
next
  case (2 a ns ot s)
  then show ?case by (auto split: sum.splits)
next
  case (3 s)
  then show ?case by simp
next
  case (4 rule rest s)
  from "4.prems" obtain rule1 s1 where
    e: "(if hasNestedRules rule then walkStyleRules rule (markOnly p) s else Inr (rule, s)) = Inr (rule1, s1)"
    by (auto split: sum.splits)
  obtain v rule2 s2 where it: "markOnly p s1 (set_other None rule1) = (v, rule2, s2)"
    by (cases "markOnly p s1 (set_other None rule1)")
  have v: "v = JUndefined"
    using it by (auto simp: markOnly_def Let_def split: prod.splits)
  from "4.prems" e it obtain kept' where
    r: "walkStyleRules_filter rest (markOnly p) s2 = Inr (kept', s')" and k: "kept = rule2 # kept'"
    using v by (auto split: sum.splits)
  from "4.hyps"(2) [of "(rule1, s1)" rule1 s1 v "(rule2, s2)" rule2 s2 kept' s'] e it r
  have "length kept' = length rest" by simp
  with k show ?case by simp
qed

lemma markOnly_result:
  assumes "predicate s rule = (v, rule1, s1)"
  shows "\<exists>rule'. markOnly predicate s rule = (JUndefined, rule', s1)
           \<and> selectors (attrs rule') = selectors (attrs rule)
           \<and> markedSelectors (attrs rule') = selectors (attrs rule1)
           \<and> remove (attrs rule') = (v = JFalse \<or> remove (attrs rule1))
           \<and> nodes rule' = nodes rule1
           \<and> other rule' = map_option stash_selectors (other rule1)
           \<and> selectors (attrs (applyMarkedSelectors rule'))
               = (case selectors (attrs rule1) of None \<Rightarrow> selectors (attrs rule) | Some f \<Rightarrow> Some f)"
  using assms
  by (cases rule1) (auto simp: markOnly_def Let_def stash_selectors_def attrs_set_selectors
        set_selectors_def map_attrs_def set_other_def split: option.splits)

text \<open>
  Claim C6, as amended. Let \<open>p\<close> answer \<open>v\<close> on a rule and leave it as \<open>rule1\<close>. Then
  \<open>markOnly(p)\<close> returns nothing, so that a walk never detaches the rule (a walk with
  \<open>markOnly(p)\<close> keeps every rule); the rule carries \<open>$$remove\<close> when \<open>p\<close> answered
  \<open>false\<close>; its selector list is the one it had before the call; what \<open>p\<close> left as
  selectors is stashed in \<open>$$markedSelectors\<close>, from where \<open>applyMarkedSelectors\<close> puts it
  back; its children are as \<open>p\<close> left them. On the twin \<open>markOnly\<close> writes
  \<open>$$markedSelectors\<close> (the twin's selectors at that moment) and nothing else: the twin's
  selectors, removal mark and children are as \<open>p\<close> left them.
\<close>

theorem markOnly_frame:
  assumes "predicate s rule = (v, rule1, s1)"
  shows "(\<exists>rule'. markOnly predicate s rule = (JUndefined, rule', s1)
           \<and> selectors (attrs rule') = selectors (attrs rule)
           \<and> markedSelectors (attrs rule') = selectors (attrs rule1)
           \<and> remove (attrs rule') = (v = JFalse \<or> remove (attrs rule1))
           \<and> nodes rule' = nodes rule1
           \<and> other rule' = map_option stash_selectors (other rule1)
           \<and> selectors (attrs (applyMarkedSelectors rule'))
               = (case selectors (attrs rule1) of None \<Rightarrow> selectors (attrs rule) | Some f \<Rightarrow> Some f))
       \<and> (\<forall>rs s0 kept s'. walkStyleRules_filter rs (markOnly predicate) s0 = Inr (kept, s')
             \<longrightarrow> length kept = length rs)"
proof (intro conjI allI impI)
  show "\<exists>rule'. markOnly predicate s rule = (JUndefined, rule', s1)
           \<and> selectors (attrs rule') = selectors (attrs rule)
           \<and> markedSelectors (attrs rule') = selectors (attrs rule1)
           \<and> remove (attrs rule') = (v = JFalse \<or> remove (attrs rule1))
           \<and> nodes rule' = nodes rule1
           \<and> other rule' = map_option stash_selectors (other rule1)
           \<and> selectors (attrs (applyMarkedSelectors rule'))
               = (case selectors (attrs rule1) of None \<Rightarrow> selectors (attrs rule) | Some f \<Rightarrow> Some f)"
    using markOnly_result [of predicate s rule v rule1 s1] assms by simp
next
  fix rs s0 kept s'
  assume "walkStyleRules_filter rs (markOnly predicate) s0 = Inr (kept, s')"
  then show "length kept = length rs"
    by (rule walk_markOnly_keeps(2))
qed

lemma keep_only_h1:
  "keep_only (js ''h1'') () paired_rule
     = (JTrue, set_other (Some (rule_node [js ''h2''] [])) (rule_node [js ''h1''] []), ())"
  by code_simp

lemma keep_only_h1_fields:
  "selectors (attrs paired_rule) = Some [js ''h1'', js ''h2'']
   \<and> selectors (attrs (set_other (Some (rule_node [js ''h2''] [])) (rule_node [js ''h1''] [])))
       = Some [js ''h1'']
   \<and> \<not> remove (attrs (set_other (Some (rule_node [js ''h2''] [])) (rule_node [js ''h1''] [])))
   \<and> map_option (\<lambda>t. (selectors (attrs t), markedSelectors (attrs t), remove (attrs t)))
        (map_option stash_selectors
           (other (set_other (Some (rule_node [js ''h2''] [])) (rule_node [js ''h1''] []))))
       = Some (Some [js ''h2''], Some [js ''h2''], False)"
  by code_simp

lemma reject_all_paired_rule: "reject_all () paired_rule = (JFalse, paired_rule, ())"
  by (simp add: reject_all_def)

theorem markOnly_frame_witness:
  "fst (markOnly (keep_only (js ''h1'')) () paired_rule) = JUndefined
   \<and> selectors (attrs (fst (snd (markOnly (keep_only (js ''h1'')) () paired_rule))))
       = Some [js ''h1'', js ''h2'']
   \<and> markedSelectors (attrs (fst (snd (markOnly (keep_only (js ''h1'')) () paired_rule))))
       = Some [js ''h1'']
   \<and> \<not> remove (attrs (fst (snd (markOnly (keep_only (js ''h1'')) () paired_rule))))
   \<and> map_option (\<lambda>t. (selectors (attrs t), markedSelectors (attrs t), remove (attrs t)))
        (other (fst (snd (markOnly (keep_only (js ''h1'')) () paired_rule))))
       = Some (Some [js ''h2''], Some [js ''h2''], False)
   \<and> selectors (attrs (applyMarkedSelectors
         (fst (snd (markOnly (keep_only (js ''h1'')) () paired_rule))))) = Some [js ''h1'']
   \<and> remove (attrs (fst (snd (markOnly reject_all () paired_rule))))"
proof -
  from markOnly_frame [of "keep_only (js ''h1'')" "()" paired_rule JTrue
      "set_other (Some (rule_node [js ''h2''] [])) (rule_node [js ''h1''] [])" "()",
      OF keep_only_h1, THEN conjunct1]
  obtain rule' where
    m: "markOnly (keep_only (js ''h1'')) () paired_rule = (JUndefined, rule', ())"
    and p: "selectors (attrs rule') = selectors (attrs paired_rule)"
      "markedSelectors (attrs rule')
         = selectors (attrs (set_other (Some (rule_node [js ''h2''] [])) (rule_node [js ''h1''] [])))"
      "remove (attrs rule')
         = (JTrue = JFalse \<or> remove (attrs (set_other (Some (rule_node [js ''h2''] []))
              (rule_node [js ''h1''] []))))"
      "other rule' = map_option stash_selectors
         (other (set_other (Some (rule_node [js ''h2''] [])) (rule_node [js ''h1''] [])))"
      "selectors (attrs (applyMarkedSelectors rule'))
         = (case selectors (attrs (set_other (Some (rule_node [js ''h2''] [])) (rule_node [js ''h1''] [])))
            of None \<Rightarrow> selectors (attrs paired_rule) | Some f \<Rightarrow> Some f)"
    by blast
  from markOnly_frame [of reject_all "()" paired_rule JFalse paired_rule "()",
      OF reject_all_paired_rule, THEN conjunct1]
  obtain rule'' where
    n: "markOnly reject_all () paired_rule = (JUndefined, rule'', ())"
    and q: "remove (attrs rule'') = (JFalse = JFalse \<or> remove (attrs paired_rule))"
    by blast
  from q have r: "remove (attrs (fst (snd (markOnly reject_all () paired_rule))))"
    by (simp add: n)
  from keep_only_h1_fields p r show ?thesis
    by (simp add: m)
qed

text \<open>
  Claim C6 as stated fails on its last part: with a predicate that answers \<open>false\<close> and
  touches nothing, the twin after \<open>markOnly\<close> differs from the twin before, in
  \<open>$$markedSelectors\<close>.
\<close>

theorem markOnly_mutates_twin:
  "reject_all () paired_rule = (JFalse, paired_rule, ())
   \<and> other paired_rule = Some (rule_node [js ''h1'', js ''h2''] [])
   \<and> other (fst (snd (markOnly reject_all () paired_rule)))
       = Some (map_attrs (\<lambda>a. a\<lparr>markedSelectors := Some [js ''h1'', js ''h2'']\<rparr>)
                 (rule_node [js ''h1'', js ''h2''] []))
   \<and> other (fst (snd (markOnly reject_all () paired_rule))) \<noteq> other paired_rule"
  by code_simp

section \<open>Properties of the walks\<close>

lemma walkStyleRules_attrs:
  "walkStyleRules n it s = Inr (n', s') \<Longrightarrow> attrs n' = attrs n \<and> other n' = other n"
  by (cases n; cases "nodes n") (auto split: sum.splits)

lemma walk_logged:
  "walkStyleRules n (logged it) st = Inr (n', st') \<Longrightarrow>
     walkStyleRules n it (fst st) = Inr (n', fst st')
     \<and> (\<exists>h. snd st' = snd st @ h \<and> list_all2 handed h (children_first n)
              \<and> (\<forall>e \<in> set h. other e = None))"
  "walkStyleRules_filter rs (logged it) st = Inr (kept, st') \<Longrightarrow>
     walkStyleRules_filter rs it (fst st) = Inr (kept, fst st')
     \<and> (\<exists>h. snd st' = snd st @ h \<and> list_all2 handed h (children_first_list rs)
              \<and> (\<forall>e \<in> set h. other e = None))"
proof (induction n "logged it" st and rs "logged it" st
         arbitrary: n' st' and kept st'
         rule: walkStyleRules_walkStyleRules_filter.induct)
  case (1 a ot s)
  then show ?case by simp
next
  case (2 a ns ot s)
  from "2.prems" obtain kept where
    f: "walkStyleRules_filter ns (logged it) s = Inr (kept, st')"
    and n': "n' = Node a (Some kept) ot"
    by (auto split: sum.splits)
  from "2.hyps" [OF f] n' show ?case by simp
next
  case (3 s)
  then show ?case by simp
next
  case (4 rule rest st)
  from "4.prems" obtain rule1 st1 where
    e: "(if hasNestedRules rule then walkStyleRules rule (logged it) st else Inr (rule, st))
          = Inr (rule1, st1)"
    by (auto split: sum.splits)
  have e': "(if hasNestedRules rule then walkStyleRules rule it (fst st) else Inr (rule, fst st))
              = Inr (rule1, fst st1)"
    and h1: "\<exists>h. snd st1 = snd st @ h
               \<and> list_all2 handed h (if hasNestedRules rule then children_first rule else [])
               \<and> (\<forall>e \<in> set h. other e = None)"
    and a1: "handed (set_other None rule1) rule"
  proof -
    show "(if hasNestedRules rule then walkStyleRules rule it (fst st) else Inr (rule, fst st))
              = Inr (rule1, fst st1)"
      using e "4.hyps"(1) [of rule1 st1] by (auto split: if_splits)
    show "\<exists>h. snd st1 = snd st @ h
               \<and> list_all2 handed h (if hasNestedRules rule then children_first rule else [])
               \<and> (\<forall>e \<in> set h. other e = None)"
      using e "4.hyps"(1) [of rule1 st1] by (auto split: if_splits)
    show "handed (set_other None rule1) rule"
      using e walkStyleRules_attrs [of rule "logged it" st rule1 st1]
      by (auto simp: handed_def split: if_splits)
  qed
  obtain v rule2 s2 where it: "it (fst st1) (set_other None rule1) = (v, rule2, s2)"
    by (cases "it (fst st1) (set_other None rule1)")
  define st2 where "st2 = (s2, snd st1 @ [set_other None rule1])"
  have lit: "logged it st1 (set_other None rule1) = (v, rule2, st2)"
    using it by (cases st1) (simp add: st2_def logged_def)
  from "4.prems" e lit obtain kept' where
    r: "walkStyleRules_filter rest (logged it) st2 = Inr (kept', st')"
    and k: "kept = (if v \<noteq> JFalse then rule2 # kept' else kept')"
    by (auto split: sum.splits)
  from "4.hyps"(2) [of "(rule1, st1)" rule1 st1 v "(rule2, st2)" rule2 st2 kept' st'] e lit r
  have r': "walkStyleRules_filter rest it (fst st2) = Inr (kept', fst st')"
    and h2: "\<exists>h. snd st' = snd st2 @ h \<and> list_all2 handed h (children_first_list rest)
               \<and> (\<forall>e \<in> set h. other e = None)"
    by simp_all
  from h1 obtain ha where ha: "snd st1 = snd st @ ha"
    "list_all2 handed ha (if hasNestedRules rule then children_first rule else [])"
    "\<forall>e \<in> set ha. other e = None" by blast
  from h2 obtain hb where hb: "snd st' = snd st2 @ hb"
    "list_all2 handed hb (children_first_list rest)" "\<forall>e \<in> set hb. other e = None" by blast
  have "walkStyleRules_filter (rule # rest) it (fst st) = Inr (kept, fst st')"
    using e' it r' k by (auto simp: st2_def split: if_splits)
  moreover have "snd st' = snd st @ (ha @ [set_other None rule1] @ hb)"
    using ha(1) hb(1) by (simp add: st2_def)
  moreover have "list_all2 handed (ha @ [set_other None rule1] @ hb) (children_first_list (rule # rest))"
    using ha(2) hb(2) a1 by (auto intro!: list_all2_appendI)
  moreover have "\<forall>e \<in> set (ha @ [set_other None rule1] @ hb). other e = None"
    using ha(3) hb(3) by auto
  ultimately show ?case by blast
qed

lemma mirror_attrs:
  "walkStyleRulesWithReverseMirror n t it s = Inr (n', t', s') \<Longrightarrow> attrs n' = attrs n \<and> other n' = other n"
proof (cases t)
  case JNull
  assume "walkStyleRulesWithReverseMirror n t it s = Inr (n', t', s')"
  with JNull show ?thesis
    using walkStyleRules_attrs [of n it s n'] by (auto split: sum.splits)
next
  case JUndefinedArg
  assume "walkStyleRulesWithReverseMirror n t it s = Inr (n', t', s')"
  with JUndefinedArg show ?thesis by simp
next
  case (Twin n2)
  assume "walkStyleRulesWithReverseMirror n t it s = Inr (n', t', s')"
  with Twin show ?thesis
    by (cases n; cases "nodes n") (auto split: sum.splits)
qed

lemma same_shape_nodes:
  "same_shape n n2 \<Longrightarrow> nodes n = Some rs \<Longrightarrow> \<exists>rs2. nodes n2 = Some rs2 \<and> list_all2 same_shape rs rs2"
  by (cases n; cases n2) (auto split: option.splits)

lemma mirror_total:
  "same_shape n n2 \<Longrightarrow> t = Twin n2 \<Longrightarrow> nodes n \<noteq> None \<Longrightarrow>
     \<exists>n' n2' s'. walkStyleRulesWithReverseMirror n t it s = Inr (n', Twin n2', s')"
  "rules2o = Some rules2 \<Longrightarrow> list_all2 same_shape rs (drop index rules2) \<Longrightarrow>
     \<exists>aOut bOut s'. mirror_splitFilter rs index rules2o it s = Inr (aOut, bOut, s')"
proof (induction n t it s and rs index rules2o it s arbitrary: n2 and rules2
         rule: walkStyleRulesWithReverseMirror_mirror_splitFilter.induct)
  case (1 node iterator s)
  then show ?case by simp
next
  case (2 node iterator s)
  then show ?case by simp
next
  case (3 a ot node2 iterator s)
  then show ?case by simp
next
  case (4 a ns ot node2 iterator s)
  from "4.prems" have n2: "node2 = n2" by simp
  from same_shape_nodes [OF "4.prems"(1), of ns] obtain rs2 where
    rs2: "nodes n2 = Some rs2" "list_all2 same_shape ns rs2" by auto
  from "4.IH" [of rs2] rs2 n2 obtain aOut bOut s' where
    "mirror_splitFilter ns 0 (nodes node2) iterator s = Inr (aOut, bOut, s')" by auto
  then show ?case by simp
next
  case (5 index rules2 iterator s)
  then show ?case by simp
next
  case (6 rule rest index iterator s)
  then show ?case by simp
next
  case (7 rule rest index rules2' iterator s)
  from "7.prems" have r2: "rules2' = rules2" by simp
  from "7.prems"(2) have lt: "index < length rules2"
    by (cases "index < length rules2") auto
  then have d: "drop index rules2 = rules2 ! index # drop (Suc index) rules2"
    by (simp add: Cons_nth_drop_Suc)
  with "7.prems"(2) have sh: "same_shape rule (rules2 ! index)"
    and shr: "list_all2 same_shape rest (drop (Suc index) rules2)" by simp_all
  define x where "x = (if index < length rules2' then Twin (rules2' ! index) else JUndefinedArg)"
  have x: "x = Twin (rules2 ! index)" using lt r2 by (simp add: x_def)
  have "\<exists>rule1 t1 s1. (if hasNestedRules rule then walkStyleRulesWithReverseMirror rule x iterator s
            else Inr (rule, x, s)) = Inr (rule1, t1, s1)"
  proof (cases "hasNestedRules rule")
    case True
    then have "nodes rule \<noteq> None" using hasNestedRules_nodes by auto
    from "7.IH"(1) [OF x_def True sh x this] True show ?thesis by auto
  next
    case False
    then show ?thesis by simp
  qed
  then obtain rule1 t1 s1 where e: "(if hasNestedRules rule
       then walkStyleRulesWithReverseMirror rule x iterator s else Inr (rule, x, s)) = Inr (rule1, t1, s1)"
    by blast
  obtain v rule3 s2 where it:
    "iterator s1 (set_other (case t1 of Twin t \<Rightarrow> Some t | _ \<Rightarrow> None) rule1) = (v, rule3, s2)"
    by (cases "iterator s1 (set_other (case t1 of Twin t \<Rightarrow> Some t | _ \<Rightarrow> None) rule1)")
  from "7.IH"(2) [of x "(rule1, t1, s1)" rule1 "(t1, s1)" t1 s1 v "(rule3, s2)" rule3 s2 rules2]
    x_def e it r2 shr
  obtain aOut bOut s3 where
    "mirror_splitFilter rest (Suc index) (Some rules2') iterator s2 = Inr (aOut, bOut, s3)"
    by auto
  with e it show ?case
    by (auto simp: x_def [symmetric] Let_def)
qed

lemma mirror_logged:
  "walkStyleRulesWithReverseMirror n t (logged it) st = Inr (n', t', st') \<Longrightarrow>
     walkStyleRulesWithReverseMirror n t it (fst st) = Inr (n', t', fst st')
     \<and> (\<exists>h. snd st' = snd st @ h \<and> list_all2 handed h (children_first n))"
  "mirror_splitFilter rs index rules2o (logged it) st = Inr (aOut, bOut, st') \<Longrightarrow>
     mirror_splitFilter rs index rules2o it (fst st) = Inr (aOut, bOut, fst st')
     \<and> (\<exists>h. snd st' = snd st @ h \<and> list_all2 handed h (children_first_list rs))"
proof (induction n t "logged it" st and rs index rules2o "logged it" st
         arbitrary: n' t' st' and aOut bOut st'
         rule: walkStyleRulesWithReverseMirror_mirror_splitFilter.induct)
  case (1 node s)
  from "1.prems" obtain st1 where
    w: "walkStyleRules node (logged it) s = Inr (n', st1)" and t': "t' = JNull" and st': "st' = st1"
    by (auto split: sum.splits)
  from walk_logged(1) [OF w] t' st' show ?case by auto
next
  case (2 node s)
  then show ?case by simp
next
  case (3 a ot node2 s)
  then show ?case by simp
next
  case (4 a ns ot node2 s)
  from "4.prems" obtain aOut bOut where
    f: "mirror_splitFilter ns 0 (nodes node2) (logged it) s = Inr (aOut, bOut, st')"
    and n': "n' = Node a (Some aOut) ot" "t' = Twin (set_nodes (Some bOut) node2)"
    by (auto split: sum.splits)
  from "4.hyps" [OF f] n' show ?case by simp
next
  case (5 index rules2 s)
  then show ?case by simp
next
  case (6 rule rest index s)
  then show ?case by simp
next
  case (7 rule rest index rules2 st)
  define x where "x = (if index < length rules2 then Twin (rules2 ! index) else JUndefinedArg)"
  from "7.prems" obtain rule1 t1 st1 where
    e: "(if hasNestedRules rule then walkStyleRulesWithReverseMirror rule x (logged it) st
         else Inr (rule, x, st)) = Inr (rule1, t1, st1)"
    by (auto simp: x_def [symmetric] Let_def split: sum.splits)
  have e': "(if hasNestedRules rule then walkStyleRulesWithReverseMirror rule x it (fst st)
              else Inr (rule, x, fst st)) = Inr (rule1, t1, fst st1)"
    and h1: "\<exists>h. snd st1 = snd st @ h
               \<and> list_all2 handed h (if hasNestedRules rule then children_first rule else [])"
  proof -
    show "(if hasNestedRules rule then walkStyleRulesWithReverseMirror rule x it (fst st)
              else Inr (rule, x, fst st)) = Inr (rule1, t1, fst st1)"
      using e "7.hyps"(1) [OF x_def, of rule1 t1 st1] by (auto split: if_splits)
    show "\<exists>h. snd st1 = snd st @ h
               \<and> list_all2 handed h (if hasNestedRules rule then children_first rule else [])"
      using e "7.hyps"(1) [OF x_def, of rule1 t1 st1] by (auto split: if_splits)
  qed
  define arg where "arg = set_other (case t1 of Twin t \<Rightarrow> Some t | _ \<Rightarrow> None) rule1"
  have a1: "handed arg rule"
    using e mirror_attrs [of rule x "logged it" st rule1 t1 st1]
    by (auto simp: handed_def arg_def split: if_splits)
  obtain v rule3 s2 where it: "it (fst st1) arg = (v, rule3, s2)"
    by (cases "it (fst st1) arg")
  define st2 where "st2 = (s2, snd st1 @ [arg])"
  have lit: "logged it st1 arg = (v, rule3, st2)"
    using it by (cases st1) (simp add: st2_def logged_def)
  from "7.prems" e lit obtain aOut' bOut' where
    r: "mirror_splitFilter rest (Suc index) (Some rules2) (logged it) st2 = Inr (aOut', bOut', st')"
    and k: "(aOut, bOut) = (if v \<noteq> JFalse then (rule3 # aOut', bOut') else (aOut', rule3 # bOut'))"
    by (auto simp: x_def [symmetric] arg_def [symmetric] Let_def split: sum.splits if_splits)
  from "7.hyps"(2) [of x "(rule1, t1, st1)" rule1 "(t1, st1)" t1 st1 v "(rule3, st2)" rule3 st2
      aOut' bOut' st'] x_def e lit r
  have r': "mirror_splitFilter rest (Suc index) (Some rules2) it (fst st2) = Inr (aOut', bOut', fst st')"
    and h2: "\<exists>h. snd st' = snd st2 @ h \<and> list_all2 handed h (children_first_list rest)"
    by (simp_all add: arg_def)
  from h1 obtain ha where ha: "snd st1 = snd st @ ha"
    "list_all2 handed ha (if hasNestedRules rule then children_first rule else [])" by blast
  from h2 obtain hb where hb: "snd st' = snd st2 @ hb"
    "list_all2 handed hb (children_first_list rest)" by blast
  have "mirror_splitFilter (rule # rest) index (Some rules2) it (fst st) = Inr (aOut, bOut, fst st')"
    using e' it r' k
    by (auto simp: x_def [symmetric] arg_def [symmetric] st2_def Let_def split: if_splits)
  moreover have "snd st' = snd st @ (ha @ [arg] @ hb)"
    using ha(1) hb(1) by (simp add: st2_def)
  moreover have "list_all2 handed (ha @ [arg] @ hb) (children_first_list (rule # rest))"
    using ha(2) hb(2) a1 by (auto intro!: list_all2_appendI)
  ultimately show ?case by blast
qed

lemma is_keyframes_not_nested: "is_keyframes r \<Longrightarrow> \<not> hasNestedRules r"
  by (auto simp: is_keyframes_def hasNestedRules_def split: option.splits)

lemma subnodes_cong: "nodes x = nodes y \<Longrightarrow> subnodes x = subnodes y"
  by (cases x; cases y) simp

lemma subnodes_Some: "nodes n = Some rs \<Longrightarrow> subnodes n = subnodes_list rs"
  by (cases n) simp

lemma keyframes_whole_refl: "keyframes_whole xs xs"
  by (auto simp: keyframes_whole_def)

lemma keyframes_whole_append:
  "keyframes_whole xs inp \<Longrightarrow> keyframes_whole ys inp \<Longrightarrow> keyframes_whole (xs @ ys) inp"
  by (auto simp: keyframes_whole_def)

lemma keyframes_whole_mono:
  "keyframes_whole xs inp \<Longrightarrow> set inp \<subseteq> set inp' \<Longrightarrow> keyframes_whole xs inp'"
  by (fastforce simp: keyframes_whole_def)

lemma keyframes_whole_step:
  assumes kc: "keeps_children it"
    and it: "it s1 arg = (v, rule3, s2)"
    and arg: "attrs arg = attrs rule" "nodes arg = nodes rule1"
    and r1: "\<not> hasNestedRules rule \<Longrightarrow> rule1 = rule"
    and sub: "keyframes_whole (subnodes rule1) (subnodes rule)"
  shows "keyframes_whole (rule3 # subnodes rule3) (subnodes_list (rule # rest))"
proof -
  have n3: "nodes rule3 = nodes rule1" and nm: "name (attrs rule3) = name (attrs rule)"
    using kc it arg unfolding keeps_children_def by (metis fst_conv snd_conv)+
  have "keyframes_whole (subnodes rule3) (subnodes_list (rule # rest))"
    using sub subnodes_cong [OF n3] by (auto simp: keyframes_whole_def)
  moreover have "keyframes_whole [rule3] (subnodes_list (rule # rest))"
  proof (cases "is_keyframes rule3")
    case True
    then have k: "is_keyframes rule" using nm by (simp add: is_keyframes_def)
    then have "rule1 = rule" using r1 is_keyframes_not_nested by blast
    with n3 k show ?thesis by (auto simp: keyframes_whole_def)
  next
    case False
    then show ?thesis by (simp add: keyframes_whole_def)
  qed
  ultimately show ?thesis
    using keyframes_whole_append [of "[rule3]" _ "subnodes rule3"] by simp
qed

lemma walk_keyframes_whole:
  "keeps_children it \<Longrightarrow> walkStyleRules n it s = Inr (n', s') \<Longrightarrow>
     keyframes_whole (subnodes n') (subnodes n)"
  "keeps_children it \<Longrightarrow> walkStyleRules_filter rs it s = Inr (kept, s') \<Longrightarrow>
     keyframes_whole (subnodes_list kept) (subnodes_list rs)"
proof (induction n it s and rs it s arbitrary: n' s' and kept s'
         rule: walkStyleRules_walkStyleRules_filter.induct)
  case (1 a ot iterator s)
  then show ?case by simp
next
  case (2 a ns ot iterator s)
  from "2.prems" obtain kept where
    f: "walkStyleRules_filter ns iterator s = Inr (kept, s')" and n': "n' = Node a (Some kept) ot"
    by (auto split: sum.splits)
  from "2.IH" [OF "2.prems"(1) f] n' show ?case by simp
next
  case (3 iterator s)
  then show ?case by (simp add: keyframes_whole_def)
next
  case (4 rule rest iterator s)
  from "4.prems" obtain rule1 s1 where
    e: "(if hasNestedRules rule then walkStyleRules rule iterator s else Inr (rule, s)) = Inr (rule1, s1)"
    by (auto split: sum.splits)
  obtain v rule2 s2 where it: "iterator s1 (set_other None rule1) = (v, rule2, s2)"
    by (cases "iterator s1 (set_other None rule1)")
  from "4.prems" e it obtain kept' where
    r: "walkStyleRules_filter rest iterator s2 = Inr (kept', s')"
    and k: "kept = (if v \<noteq> JFalse then rule2 # kept' else kept')"
    by (auto split: sum.splits)
  have sub: "keyframes_whole (subnodes rule1) (subnodes rule)"
    using e "4.IH"(1) [OF _ "4.prems"(1), of rule1 s1]
    by (auto simp: keyframes_whole_refl split: if_splits)
  have at: "attrs (set_other None rule1) = attrs rule"
    using e walkStyleRules_attrs [of rule iterator s rule1 s1] by (auto split: if_splits)
  have r1: "\<not> hasNestedRules rule \<Longrightarrow> rule1 = rule" using e by simp
  have head: "keyframes_whole (rule2 # subnodes rule2) (subnodes_list (rule # rest))"
    using keyframes_whole_step [OF "4.prems"(1) it at _ r1 sub] by simp
  have "keyframes_whole (subnodes_list kept') (subnodes_list rest)"
    using "4.IH"(2) [of "(rule1, s1)" rule1 s1 v "(rule2, s2)" rule2 s2 kept' s'] e it r "4.prems"(1)
    by simp
  then have tail: "keyframes_whole (subnodes_list kept') (subnodes_list (rule # rest))"
    by (rule keyframes_whole_mono) auto
  from head tail k show ?case
    using keyframes_whole_append [of "rule2 # subnodes rule2" _ "subnodes_list kept'"]
    by (auto split: if_splits)
qed

lemma mirror_keyframes_whole:
  "keeps_children it \<Longrightarrow> walkStyleRulesWithReverseMirror n t it s = Inr (n', t', s') \<Longrightarrow>
     keyframes_whole (subnodes n') (subnodes n)
     \<and> (\<forall>n2 n2'. t = Twin n2 \<longrightarrow> t' = Twin n2' \<longrightarrow> keyframes_whole (subnodes n2') (subnodes n))"
  "keeps_children it \<Longrightarrow> mirror_splitFilter rs index rules2o it s = Inr (aOut, bOut, s') \<Longrightarrow>
     keyframes_whole (subnodes_list aOut @ subnodes_list bOut) (subnodes_list rs)"
proof (induction n t it s and rs index rules2o it s arbitrary: n' t' s' and aOut bOut s'
         rule: walkStyleRulesWithReverseMirror_mirror_splitFilter.induct)
  case (1 node iterator s)
  from "1.prems" obtain w: "walkStyleRules node iterator s = Inr (n', s')" and "t' = JNull"
    by (auto split: sum.splits)
  with walk_keyframes_whole(1) [OF "1.prems"(1) w] show ?case by simp
next
  case (2 node iterator s)
  then show ?case by simp
next
  case (3 a ot node2 iterator s)
  then show ?case by simp
next
  case (4 a ns ot node2 iterator s)
  from "4.prems" obtain aOut bOut where
    f: "mirror_splitFilter ns 0 (nodes node2) iterator s = Inr (aOut, bOut, s')"
    and n': "n' = Node a (Some aOut) ot" "t' = Twin (set_nodes (Some bOut) node2)"
    by (auto split: sum.splits)
  from "4.IH" [OF "4.prems"(1) f] n' show ?case
    by (auto simp: keyframes_whole_def subnodes_Some)
next
  case (5 index rules2 iterator s)
  then show ?case by (simp add: keyframes_whole_def)
next
  case (6 rule rest index iterator s)
  then show ?case by simp
next
  case (7 rule rest index rules2 iterator s)
  define x where "x = (if index < length rules2 then Twin (rules2 ! index) else JUndefinedArg)"
  from "7.prems" obtain rule1 t1 s1 where
    e: "(if hasNestedRules rule then walkStyleRulesWithReverseMirror rule x iterator s
         else Inr (rule, x, s)) = Inr (rule1, t1, s1)"
    by (auto simp: x_def [symmetric] Let_def split: sum.splits)
  define arg where "arg = set_other (case t1 of Twin t \<Rightarrow> Some t | _ \<Rightarrow> None) rule1"
  obtain v rule3 s2 where it: "iterator s1 arg = (v, rule3, s2)"
    by (cases "iterator s1 arg")
  from "7.prems" e it obtain aOut' bOut' where
    r: "mirror_splitFilter rest (Suc index) (Some rules2) iterator s2 = Inr (aOut', bOut', s')"
    and k: "(aOut, bOut) = (if v \<noteq> JFalse then (rule3 # aOut', bOut') else (aOut', rule3 # bOut'))"
    by (auto simp: x_def [symmetric] arg_def [symmetric] Let_def split: sum.splits if_splits)
  have sub: "keyframes_whole (subnodes rule1) (subnodes rule)"
    using e "7.IH"(1) [OF x_def _ "7.prems"(1), of rule1 t1 s1]
    by (auto simp: keyframes_whole_refl split: if_splits)
  have at: "attrs arg = attrs rule"
    using e mirror_attrs [of rule x iterator s rule1 t1 s1] by (auto simp: arg_def split: if_splits)
  have r1: "\<not> hasNestedRules rule \<Longrightarrow> rule1 = rule" using e by simp
  have head: "keyframes_whole (rule3 # subnodes rule3) (subnodes_list (rule # rest))"
    using keyframes_whole_step [OF "7.prems"(1) it at _ r1 sub] by (simp add: arg_def)
  have "keyframes_whole (subnodes_list aOut' @ subnodes_list bOut') (subnodes_list rest)"
    using "7.IH"(2) [of x "(rule1, t1, s1)" rule1 "(t1, s1)" t1 s1 v "(rule3, s2)" rule3 s2
        aOut' bOut' s'] x_def e it r "7.prems"(1)
    by (simp add: arg_def)
  then have tail: "keyframes_whole (subnodes_list aOut' @ subnodes_list bOut') (subnodes_list (rule # rest))"
    by (rule keyframes_whole_mono) auto
  from head tail k show ?case
    by (auto simp: keyframes_whole_def split: if_splits)
qed

lemma children_first_list_superset: "set rs \<subseteq> set (children_first_list rs)"
  by (induction rs) auto

lemma children_first_Some: "nodes n = Some rs \<Longrightarrow> children_first n = children_first_list rs"
  by (cases n) simp

lemma children_before_container:
  "children_first n = pre @ c # post \<Longrightarrow> hasNestedRules c \<Longrightarrow> set (the (nodes c)) \<subseteq> set pre"
  "children_first_list rs = pre @ c # post \<Longrightarrow> hasNestedRules c \<Longrightarrow> set (the (nodes c)) \<subseteq> set pre"
proof (induction n and rs arbitrary: pre post and pre post
         rule: children_first_children_first_list.induct)
  case (1 a ns ot)
  then show ?case by (cases ns) auto
next
  case 2
  then show ?case by simp
next
  case (3 r rest)
  define X where "X = (if hasNestedRules r then children_first r else [])"
  define Y where "Y = children_first_list rest"
  from "3.prems"(1) have eq: "X @ r # Y = pre @ c # post"
    by (simp add: X_def Y_def)
  then consider
      (left) us where "X = pre @ c # us"
    | (mid) "X = pre" "r = c"
    | (right) us where "pre = X @ r # us" "Y = us @ c # post"
    by (auto simp: append_eq_append_conv2 Cons_eq_append_conv append_eq_Cons_conv)
  then show ?case
  proof cases
    case left
    then have h: "hasNestedRules r" by (auto simp: X_def split: if_splits)
    with left have "children_first r = pre @ c # us" by (simp add: X_def)
    from "3.IH"(1) [OF h this "3.prems"(2)] show ?thesis .
  next
    case mid
    from "3.prems"(2) mid obtain cs where cs: "nodes r = Some cs"
      using hasNestedRules_nodes by blast
    have "X = children_first_list cs"
      using "3.prems"(2) mid cs by (simp add: X_def children_first_Some)
    with mid cs show ?thesis
      using children_first_list_superset [of cs] by simp
  next
    case right
    from "3.IH"(2) [of us post] right "3.prems"(2) have "set (the (nodes c)) \<subseteq> set us"
      by (simp add: Y_def)
    with right show ?thesis by auto
  qed
qed

lemma handed_keyframes:
  "list_all2 handed h cf \<Longrightarrow>
     map (set_other None) (filter is_keyframes h) = map (set_other None) (filter is_keyframes cf)"
proof (induction rule: list_all2_induct)
  case Nil
  then show ?case by simp
next
  case (Cons e es r rs)
  have k: "is_keyframes e = is_keyframes r"
    using Cons.hyps(1) by (simp add: handed_def is_keyframes_def)
  have "is_keyframes r \<Longrightarrow> set_other None e = set_other None r"
    using Cons.hyps(1) is_keyframes_not_nested [of r]
    by (cases e; cases r) (auto simp: handed_def set_other_def)
  with k Cons.IH show ?case by auto
qed

lemma set_other_None_id: "other e = None \<Longrightarrow> set_other None e = e"
  by (cases e) (simp add: set_other_def)

lemma handed_attrs: "list_all2 handed h cf \<Longrightarrow> map attrs h = map attrs cf"
  by (induction rule: list_all2_induct) (auto simp: handed_def)

lemma walk_logged_run:
  assumes "nodes tree \<noteq> None"
  shows "\<exists>tree' s' log. walkStyleRules tree (logged it) (s, []) = Inr (tree', (s', log))
           \<and> walkStyleRules tree it s = Inr (tree', s')
           \<and> list_all2 handed log (children_first tree) \<and> (\<forall>e \<in> set log. other e = None)"
proof -
  from walk_total(1) [OF assms, of "logged it" "(s, [])"] obtain tree' st' where
    w: "walkStyleRules tree (logged it) (s, []) = Inr (tree', st')" by blast
  from walk_logged(1) [OF w] show ?thesis
    using w by (cases st') auto
qed

lemma mirror_logged_run:
  assumes "same_shape tree tree2" and "nodes tree \<noteq> None"
  shows "\<exists>tree' tree2' s' log.
           walkStyleRulesWithReverseMirror tree (Twin tree2) (logged it) (s, []) = Inr (tree', Twin tree2', (s', log))
           \<and> walkStyleRulesWithReverseMirror tree (Twin tree2) it s = Inr (tree', Twin tree2', s')
           \<and> list_all2 handed log (children_first tree)"
proof -
  from mirror_total(1) [OF assms(1) refl assms(2), of "logged it" "(s, [])"] obtain tree' tree2' st' where
    w: "walkStyleRulesWithReverseMirror tree (Twin tree2) (logged it) (s, []) = Inr (tree', Twin tree2', st')"
    by blast
  from mirror_logged(1) [OF w] show ?thesis
    using w by (cases st') auto
qed

lemma example_order:
  "children_first example_sheet =
     [step_rule ''h1'' ''1'', step_rule ''h2'' ''1'', example_media, example_keyframes,
      step_rule ''p'' ''1'']"
  by code_simp

lemma example_order_summary:
  "map (\<lambda>a. (ntype a, name a, selectors a)) (map attrs (children_first example_sheet)) =
     [(Rule, None, Some [js ''h1'']), (Rule, None, Some [js ''h2'']),
      (AtRule, Some (js ''media''), None), (AtRule, Some (js ''keyframes''), None),
      (Rule, None, Some [js ''p''])]"
  by code_simp

lemma example_sheet_nodes: "nodes example_sheet \<noteq> None"
  by code_simp

lemma example_sheet_shape: "same_shape example_sheet example_sheet"
  by code_simp

lemma example_media_nested: "hasNestedRules example_media"
  by code_simp

lemma summary_attrs: "map summary log = map (\<lambda>a. (ntype a, name a, selectors a)) (map attrs log)"
  by (simp add: summary_def)

text \<open>
  Claim C7. In a walk of a tree, single or mirrored, the rules reach the iterator in the
  order the specification calls pre-order: for every child in turn, first the rules nested
  in it (when it has nested rules), then the child itself. So whenever the iterator is
  invoked on a container with nested rules, it has already been invoked on every child of
  that container. The first three parts are about every iterator, whatever it changes, and
  read the order off the log of its invocations; the logging changes nothing of what the
  walks compute. The single walk returns for every node with children, the mirrored walk
  for every second tree of the same shape; and whatever the second argument, a mirrored
  walk that returns has made its invocations in that order.
\<close>

theorem walk_visits_children_first:
  "(nodes tree \<noteq> None \<longrightarrow>
      (\<exists>tree' s' log.
          walkStyleRules tree (logged iterator) (s, []) = Inr (tree', (s', log))
          \<and> walkStyleRules tree iterator s = Inr (tree', s')
          \<and> map attrs log = map attrs (children_first tree)))
   \<and> (same_shape tree tree2 \<and> nodes tree \<noteq> None \<longrightarrow>
      (\<exists>tree' tree2' s' log.
          walkStyleRulesWithReverseMirror tree (Twin tree2) (logged iterator) (s, [])
            = Inr (tree', Twin tree2', (s', log))
          \<and> walkStyleRulesWithReverseMirror tree (Twin tree2) iterator s = Inr (tree', Twin tree2', s')
          \<and> map attrs log = map attrs (children_first tree)))
   \<and> (walkStyleRulesWithReverseMirror tree twin (logged iterator) (s, []) = Inr (tree1, twin1, (s1, log1))
        \<longrightarrow> walkStyleRulesWithReverseMirror tree twin iterator s = Inr (tree1, twin1, s1)
            \<and> map attrs log1 = map attrs (children_first tree))
   \<and> (\<forall>pre c post. children_first tree = pre @ c # post \<and> hasNestedRules c
          \<longrightarrow> set (the (nodes c)) \<subseteq> set pre)"
proof (intro conjI impI allI)
  assume "nodes tree \<noteq> None"
  from walk_logged_run [OF this, of iterator s] show
    "\<exists>tree' s' log.
          walkStyleRules tree (logged iterator) (s, []) = Inr (tree', (s', log))
          \<and> walkStyleRules tree iterator s = Inr (tree', s')
          \<and> map attrs log = map attrs (children_first tree)"
    using handed_attrs by blast
next
  assume "same_shape tree tree2 \<and> nodes tree \<noteq> None"
  then have a: "same_shape tree tree2" "nodes tree \<noteq> None" by simp_all
  from mirror_logged_run [OF a, of iterator s] show
    "\<exists>tree' tree2' s' log.
          walkStyleRulesWithReverseMirror tree (Twin tree2) (logged iterator) (s, [])
            = Inr (tree', Twin tree2', (s', log))
          \<and> walkStyleRulesWithReverseMirror tree (Twin tree2) iterator s = Inr (tree', Twin tree2', s')
          \<and> map attrs log = map attrs (children_first tree)"
    using handed_attrs by blast
next
  assume w: "walkStyleRulesWithReverseMirror tree twin (logged iterator) (s, [])
               = Inr (tree1, twin1, (s1, log1))"
  from mirror_logged(1) [OF w] show
    "walkStyleRulesWithReverseMirror tree twin iterator s = Inr (tree1, twin1, s1)"
    by simp
  from mirror_logged(1) [OF w] show "map attrs log1 = map attrs (children_first tree)"
    using handed_attrs by auto
next
  fix pre c post
  assume "children_first tree = pre @ c # post \<and> hasNestedRules c"
  then show "set (the (nodes c)) \<subseteq> set pre"
    using children_before_container(1) by blast
qed

theorem walk_visits_children_first_witness:
  "(\<exists>tree' s' log.
      walkStyleRules example_sheet (logged keep_all) ((), []) = Inr (tree', s', log)
      \<and> map summary log =
          [(Rule, None, Some [js ''h1'']), (Rule, None, Some [js ''h2'']),
           (AtRule, Some (js ''media''), None), (AtRule, Some (js ''keyframes''), None),
           (Rule, None, Some [js ''p''])])
   \<and> (\<exists>tree' tree2' s' log.
      walkStyleRulesWithReverseMirror example_sheet (Twin example_sheet) (logged keep_all) ((), [])
        = Inr (tree', Twin tree2', s', log)
      \<and> map summary log =
          [(Rule, None, Some [js ''h1'']), (Rule, None, Some [js ''h2'']),
           (AtRule, Some (js ''media''), None), (AtRule, Some (js ''keyframes''), None),
           (Rule, None, Some [js ''p''])])
   \<and> set (the (nodes example_media)) \<subseteq> set [step_rule ''h1'' ''1'', step_rule ''h2'' ''1'']"
proof -
  note t = walk_visits_children_first [of example_sheet keep_all "()" example_sheet]
  from t [THEN conjunct1] example_sheet_nodes obtain tree' s' log where
    r1: "walkStyleRules example_sheet (logged keep_all) ((), []) = Inr (tree', s', log)"
    and m1: "map attrs log = map attrs (children_first example_sheet)"
    by blast
  from t [THEN conjunct2, THEN conjunct1] example_sheet_nodes example_sheet_shape
  obtain tree1 tree2 s2 log2 where
    r2: "walkStyleRulesWithReverseMirror example_sheet (Twin example_sheet) (logged keep_all) ((), [])
        = Inr (tree1, Twin tree2, s2, log2)"
    and m2: "map attrs log2 = map attrs (children_first example_sheet)"
    by blast
  from t [THEN conjunct2, THEN conjunct2, THEN conjunct2, THEN spec, THEN spec, THEN spec,
      of "[step_rule ''h1'' ''1'', step_rule ''h2'' ''1'']" example_media
         "[example_keyframes, step_rule ''p'' ''1'']"]
    example_order example_media_nested
  have 3: "set (the (nodes example_media)) \<subseteq> set [step_rule ''h1'' ''1'', step_rule ''h2'' ''1'']"
    by simp
  have s1: "map summary log =
          [(Rule, None, Some [js ''h1'']), (Rule, None, Some [js ''h2'']),
           (AtRule, Some (js ''media''), None), (AtRule, Some (js ''keyframes''), None),
           (Rule, None, Some [js ''p''])]"
    by (simp only: summary_attrs m1 example_order_summary)
  have s2: "map summary log2 =
          [(Rule, None, Some [js ''h1'']), (Rule, None, Some [js ''h2'']),
           (AtRule, Some (js ''media''), None), (AtRule, Some (js ''keyframes''), None),
           (Rule, None, Some [js ''p''])]"
    by (simp only: summary_attrs m2 example_order_summary)
  show ?thesis
  proof (intro conjI)
    show "\<exists>tree' s' log.
      walkStyleRules example_sheet (logged keep_all) ((), []) = Inr (tree', s', log)
      \<and> map summary log =
          [(Rule, None, Some [js ''h1'']), (Rule, None, Some [js ''h2'']),
           (AtRule, Some (js ''media''), None), (AtRule, Some (js ''keyframes''), None),
           (Rule, None, Some [js ''p''])]"
      by (intro exI conjI) (rule r1, rule s1)
    show "\<exists>tree' tree2' s' log.
      walkStyleRulesWithReverseMirror example_sheet (Twin example_sheet) (logged keep_all) ((), [])
        = Inr (tree', Twin tree2', s', log)
      \<and> map summary log =
          [(Rule, None, Some [js ''h1'']), (Rule, None, Some [js ''h2'']),
           (AtRule, Some (js ''media''), None), (AtRule, Some (js ''keyframes''), None),
           (Rule, None, Some [js ''p''])]"
      by (intro exI conjI) (rule r2, rule s2)
    show "set (the (nodes example_media)) \<subseteq> set [step_rule ''h1'' ''1'', step_rule ''h2'' ''1'']"
      by (rule 3)
  qed
qed

lemma example_walk:
  "walkStyleRules example_sheet drop_h2_and_to () = Inr (example_walked, ())"
  by code_simp

lemma example_mirror_walk:
  "walkStyleRulesWithReverseMirror example_sheet (Twin example_sheet) drop_unused ()
     = Inr (example_critical, Twin example_rest, ())"
  by code_simp

lemma keeps_children_drop_h2_and_to: "keeps_children drop_h2_and_to"
  by (simp add: keeps_children_def drop_h2_and_to_def)

lemma keeps_children_drop_unused: "keeps_children drop_unused"
  by (simp add: keeps_children_def drop_unused_def)

lemma example_keyframes_is: "is_keyframes example_keyframes"
  by code_simp

lemma example_keyframes_handed:
  "map (set_other None) (filter is_keyframes (children_first example_sheet)) = [example_keyframes]"
  by code_simp

text \<open>
  The walks never recurse into an at-rule named \<open>keyframes\<close> or \<open>-webkit-keyframes\<close>:
  \<open>hasNestedRules\<close> is false for it; every iterator receives each such block it is
  invoked on as the block stands in the tree, with all its steps; and when the iterator
  leaves the children and names of the rules it is given alone, every such block in an
  output of a walk (the tree of the single walk, both trees of the mirrored walk) has
  exactly the steps of a block of the input, so it is kept whole or removed whole.
\<close>

lemma keyframes_kept_whole:
  "(is_keyframes r \<longrightarrow> \<not> hasNestedRules r)
   \<and> (nodes tree \<noteq> None \<longrightarrow>
        (\<exists>tree' s' log.
            walkStyleRules tree (logged iterator) (s, []) = Inr (tree', (s', log))
            \<and> filter is_keyframes log = map (set_other None) (filter is_keyframes (children_first tree))))
   \<and> (same_shape tree tree2 \<and> nodes tree \<noteq> None \<longrightarrow>
        (\<exists>tree' tree2' s' log.
            walkStyleRulesWithReverseMirror tree (Twin tree2) (logged iterator) (s, [])
              = Inr (tree', Twin tree2', (s', log))
            \<and> map (set_other None) (filter is_keyframes log)
                = map (set_other None) (filter is_keyframes (children_first tree))))
   \<and> (keeps_children iterator \<and> walkStyleRules tree iterator s = Inr (tree', s') \<longrightarrow>
        keyframes_whole (subnodes tree') (subnodes tree))
   \<and> (keeps_children iterator
        \<and> walkStyleRulesWithReverseMirror tree (Twin tree2) iterator s = Inr (tree', Twin tree2', s') \<longrightarrow>
        keyframes_whole (subnodes tree') (subnodes tree)
        \<and> keyframes_whole (subnodes tree2') (subnodes tree))"
proof (intro conjI impI)
  assume "is_keyframes r"
  then show "\<not> hasNestedRules r" by (rule is_keyframes_not_nested)
next
  assume "nodes tree \<noteq> None"
  from walk_logged_run [OF this, of iterator s] obtain tree' s' log where
    w: "walkStyleRules tree (logged iterator) (s, []) = Inr (tree', (s', log))"
    and h: "list_all2 handed log (children_first tree)" and o: "\<forall>e \<in> set log. other e = None"
    by blast
  have "map (set_other None) (filter is_keyframes log) = filter is_keyframes log"
    using o by (intro map_idI) (simp add: set_other_None_id)
  with handed_keyframes [OF h] w show
    "\<exists>tree' s' log.
            walkStyleRules tree (logged iterator) (s, []) = Inr (tree', (s', log))
            \<and> filter is_keyframes log = map (set_other None) (filter is_keyframes (children_first tree))"
    by auto
next
  assume "same_shape tree tree2 \<and> nodes tree \<noteq> None"
  then have a: "same_shape tree tree2" "nodes tree \<noteq> None" by simp_all
  from mirror_logged_run [OF a, of iterator s] show
    "\<exists>tree' tree2' s' log.
            walkStyleRulesWithReverseMirror tree (Twin tree2) (logged iterator) (s, [])
              = Inr (tree', Twin tree2', (s', log))
            \<and> map (set_other None) (filter is_keyframes log)
                = map (set_other None) (filter is_keyframes (children_first tree))"
    using handed_keyframes by blast
next
  assume "keeps_children iterator \<and> walkStyleRules tree iterator s = Inr (tree', s')"
  then show "keyframes_whole (subnodes tree') (subnodes tree)"
    using walk_keyframes_whole(1) [of iterator tree s tree' s'] by simp
next
  assume a: "keeps_children iterator
        \<and> walkStyleRulesWithReverseMirror tree (Twin tree2) iterator s = Inr (tree', Twin tree2', s')"
  then show "keyframes_whole (subnodes tree') (subnodes tree)"
    using mirror_keyframes_whole(1) [of iterator tree "Twin tree2" s tree' "Twin tree2'" s'] by simp
  from a show "keyframes_whole (subnodes tree2') (subnodes tree)"
    using mirror_keyframes_whole(1) [of iterator tree "Twin tree2" s tree' "Twin tree2'" s'] by simp
qed

lemma keyframes_kept_whole_example:
  "\<not> hasNestedRules example_keyframes
   \<and> (\<exists>tree' s' log.
        walkStyleRules example_sheet (logged drop_h2_and_to) ((), []) = Inr (tree', s', log)
        \<and> filter is_keyframes log = [example_keyframes])
   \<and> walkStyleRules example_sheet drop_h2_and_to () = Inr (example_walked, ())
   \<and> keyframes_whole (subnodes example_walked) (subnodes example_sheet)
   \<and> walkStyleRulesWithReverseMirror example_sheet (Twin example_sheet) drop_unused ()
       = Inr (example_critical, Twin example_rest, ())
   \<and> keyframes_whole (subnodes example_critical) (subnodes example_sheet)
   \<and> keyframes_whole (subnodes example_rest) (subnodes example_sheet)"
proof -
  note t = keyframes_kept_whole [of example_keyframes example_sheet drop_h2_and_to "()" example_sheet
      example_walked "()" example_rest]
  note u = keyframes_kept_whole [of example_keyframes example_sheet drop_unused "()" example_sheet
      example_critical "()" example_rest]
  from t [THEN conjunct1] example_keyframes_is
  have 1: "\<not> hasNestedRules example_keyframes" by simp
  from t [THEN conjunct2, THEN conjunct1] example_sheet_nodes obtain tree' s' log where
    r: "walkStyleRules example_sheet (logged drop_h2_and_to) ((), []) = Inr (tree', s', log)"
    and f: "filter is_keyframes log = map (set_other None) (filter is_keyframes (children_first example_sheet))"
    by blast
  have f': "filter is_keyframes log = [example_keyframes]"
    by (simp only: f example_keyframes_handed)
  from t [THEN conjunct2, THEN conjunct2, THEN conjunct2, THEN conjunct1]
    keeps_children_drop_h2_and_to example_walk
  have 3: "keyframes_whole (subnodes example_walked) (subnodes example_sheet)" by simp
  from u [THEN conjunct2, THEN conjunct2, THEN conjunct2, THEN conjunct2]
    keeps_children_drop_unused example_mirror_walk
  have 4: "keyframes_whole (subnodes example_critical) (subnodes example_sheet)
           \<and> keyframes_whole (subnodes example_rest) (subnodes example_sheet)" by simp
  have 2: "\<exists>tree' s' log.
        walkStyleRules example_sheet (logged drop_h2_and_to) ((), []) = Inr (tree', s', log)
        \<and> filter is_keyframes log = [example_keyframes]"
    by (intro exI conjI) (rule r, rule f')
  from 1 2 3 4 example_walk example_mirror_walk show ?thesis by simp
qed

text \<open>
  Claim C4. The walks are to leave a keyframes block alone, whatever its vendor prefix:
  never recurse into it, hand it to the predicate as one unit, keep it whole or remove it
  whole. \<open>hasNestedRules\<close> exempts the names \<open>keyframes\<close> and \<open>-webkit-keyframes\<close> and no
  other, so this holds for those two names and fails for the other prefixes: for a block
  named \<open>-moz-keyframes\<close> \<open>hasNestedRules\<close> holds, the walks recurse into it, its steps
  reach the predicate one by one, and with a predicate that rejects the step \<open>to\<close> the
  single walk leaves the block with one of its two steps and the mirrored walk puts one
  step in each of the two trees.
\<close>

theorem moz_keyframes_split:
  "name (attrs moz_keyframes) = Some (js ''-moz-keyframes'')
   \<and> nodes moz_keyframes = Some [step_rule ''from'' ''0'', step_rule ''to'' ''1'']
   \<and> hasNestedRules moz_keyframes
   \<and> walkStyleRules (root_node [moz_keyframes]) (logged drop_h2_and_to) ((), [])
       = Inr (root_node [atrule_node (js ''-moz-keyframes'') [step_rule ''from'' ''0'']],
              (), [step_rule ''from'' ''0'', step_rule ''to'' ''1'',
                   atrule_node (js ''-moz-keyframes'') [step_rule ''from'' ''0'']])
   \<and> walkStyleRules (root_node [moz_keyframes]) drop_h2_and_to ()
       = Inr (root_node [atrule_node (js ''-moz-keyframes'') [step_rule ''from'' ''0'']], ())
   \<and> walkStyleRulesWithReverseMirror (root_node [moz_keyframes]) (Twin (root_node [moz_keyframes]))
         drop_h2_and_to ()
       = Inr (root_node
                [set_other (Some (atrule_node (js ''-moz-keyframes'') [paired (step_rule ''to'' ''1'')]))
                   (atrule_node (js ''-moz-keyframes'') [paired (step_rule ''from'' ''0'')])],
              Twin (root_node []), ())"
  by code_simp

lemma walkStyleRulesWithReverseMirror_null:
  "walkStyleRulesWithReverseMirror node JNull iterator s
     = map_sum id (\<lambda>(node', s'). (node', JNull, s')) (walkStyleRules node iterator s)"
  by (simp split: sum.splits)

text \<open>
  Claim C10. With \<open>null\<close> as second tree the mirrored walk is the single walk
  (\<open>walkStyleRulesWithReverseMirror_null\<close>). With the second tree absent, that is
  \<open>undefined\<close>, \<open>css.js\<close> raises a TypeError where the single walk returns the walked
  tree.
\<close>

theorem walkStyleRulesWithReverseMirror_undefined_twin:
  "walkStyleRulesWithReverseMirror example_sheet JUndefinedArg keep_all () = Inl TypeError
   \<and> walkStyleRules example_sheet keep_all () = Inr (example_sheet, ())"
  by code_simp

section \<open>Properties of validateMediaQuery\<close>

declare validate_stack.simps [simp del]

lemma validate_stack_iff:
  "validate_stack stack \<longleftrightarrow> (\<forall>n \<in> set stack. \<forall>m \<in> set (mq_all n). token_ok m)"
proof (induction stack rule: validate_stack.induct)
  case (1 stack)
  show ?case
  proof (cases "stack = []")
    case True
    then show ?thesis by (simp add: validate_stack.simps)
  next
    case False
    define node where "node = last stack"
    define popped where "popped = butlast stack"
    have stack: "stack = popped @ [node]"
      using False by (simp add: node_def popped_def)
    obtain t v nso where node: "node = MQNode t v nso" by (cases node)
    show ?thesis
    proof (cases "has nodeTypes (mq_type node) \<and> validateMediaType node \<noteq> Some True")
      case True
      then have "\<not> token_ok node" by (simp add: token_ok_def)
      moreover have "node \<in> set (mq_all node)" by (simp add: node)
      ultimately have "\<not> (\<forall>n \<in> set stack. \<forall>m \<in> set (mq_all n). token_ok m)"
        using stack by auto
      moreover have "\<not> validate_stack stack"
        using True False by (subst validate_stack.simps) (simp add: node_def Let_def)
      ultimately show ?thesis by simp
    next
      case ok: False
      then have tok: "token_ok node" by (auto simp: token_ok_def)
      let ?next = "case mq_nodes node of Some ns \<Rightarrow> popped @ ns | None \<Rightarrow> popped"
      have step: "validate_stack stack = validate_stack ?next"
        using ok False unfolding node_def popped_def
        by (subst validate_stack.simps) (auto simp add: Let_def)
      have IH: "validate_stack ?next \<longleftrightarrow> (\<forall>n \<in> set ?next. \<forall>m \<in> set (mq_all n). token_ok m)"
        using "1.IH" [OF _ node_def popped_def] ok False by auto
      have "(\<forall>n \<in> set ?next. \<forall>m \<in> set (mq_all n). token_ok m)
            \<longleftrightarrow> (\<forall>n \<in> set stack. \<forall>m \<in> set (mq_all n). token_ok m)"
      proof -
        have "set stack = insert node (set popped)"
          using arg_cong [OF stack, of set] by simp
        then show ?thesis
          using tok by (cases nso) (auto simp: node)
      qed
      with step IH show ?thesis by simp
    qed
  qed
qed

lemma has_iff: "has xs v \<longleftrightarrow> v \<in> set xs"
  by (simp add: has_def)

lemma node_type_names_distinct:
  "js ''media-type'' \<noteq> js ''keyword''" "js ''media-type'' \<noteq> js ''media-feature''"
  "js ''keyword'' \<noteq> js ''media-feature''"
  by (simp_all add: js_def)

lemma token_ok_iff:
  "token_ok m \<longleftrightarrow>
     (mq_type m = js ''media-type'' \<longrightarrow> mq_value m \<in> set MEDIA_TYPES)
   \<and> (mq_type m = js ''keyword'' \<longrightarrow> mq_value m \<in> set MEDIA_KEYWORDS)
   \<and> (mq_type m = js ''media-feature'' \<longrightarrow> mq_value m \<in> set MEDIA_FEATURES)"
  using node_type_names_distinct
  by (auto simp add: token_ok_def validateMediaType_def has_iff nodeTypes_def)

lemma MEDIA_FEATURES_iff:
  "v \<in> set MEDIA_FEATURES \<longleftrightarrow>
     (\<exists>f \<in> {js ''width'', js ''height'', js ''color'', js ''grid'', js ''orientation'',
              js ''resolution'', js ''scan'', js ''aspect-ratio'', js ''color-index'',
              js ''monochrome''}.
        v = f \<or> v = js ''min-'' @ f \<or> v = js ''max-'' @ f)"
  unfolding MEDIA_FEATURES_def by auto

text \<open>
  Claim C3. Whatever tree the parser returns for a query, \<open>validateMediaQuery\<close> returns true
  exactly when every node of type \<open>media-type\<close> has one of the values all, print, screen,
  speech, every node of type \<open>keyword\<close> one of and, not and the comma, and every node of type
  \<open>media-feature\<close> one of the ten feature names or one of them prefixed with \<open>min-\<close> or
  \<open>max-\<close>; a single token outside these lists makes it return false.
\<close>

theorem validateMediaQuery_allow_list:
  "validateMediaQuery mediaParser query \<longleftrightarrow>
     (\<forall>m \<in> set (mq_all (mediaParser query)).
        (mq_type m = js ''media-type'' \<longrightarrow>
           mq_value m \<in> {js ''all'', js ''print'', js ''screen'', js ''speech''})
      \<and> (mq_type m = js ''keyword'' \<longrightarrow> mq_value m \<in> {js ''and'', js ''not'', js '',''})
      \<and> (mq_type m = js ''media-feature'' \<longrightarrow>
           (\<exists>f \<in> {js ''width'', js ''height'', js ''color'', js ''grid'', js ''orientation'',
                    js ''resolution'', js ''scan'', js ''aspect-ratio'', js ''color-index'',
                    js ''monochrome''}.
              mq_value m = f \<or> mq_value m = js ''min-'' @ f \<or> mq_value m = js ''max-'' @ f)))"
proof -
  have "validateMediaQuery mediaParser query
          \<longleftrightarrow> (\<forall>m \<in> set (mq_all (mediaParser query)). token_ok m)"
    by (simp add: validateMediaQuery_def validate_stack_iff)
  also have "\<dots> \<longleftrightarrow> (\<forall>m \<in> set (mq_all (mediaParser query)).
        (mq_type m = js ''media-type'' \<longrightarrow> mq_value m \<in> set MEDIA_TYPES)
      \<and> (mq_type m = js ''keyword'' \<longrightarrow> mq_value m \<in> set MEDIA_KEYWORDS)
      \<and> (mq_type m = js ''media-feature'' \<longrightarrow> mq_value m \<in> set MEDIA_FEATURES))"
    by (simp only: token_ok_iff)
  finally show ?thesis
    by (simp only: MEDIA_FEATURES_iff) (simp add: MEDIA_TYPES_def MEDIA_KEYWORDS_def)
qed

theorem validateMediaQuery_allow_list_witness:
  "validateMediaQuery (\<lambda>q. min_width_query ''100px'') (js ''screen and (min-width: 100px)'')
   \<and> \<not> validateMediaQuery (\<lambda>q. mq_container ''media-query-list'' ''tv'' [mq_leaf ''media-type'' ''tv''])
         (js ''tv'')"
  using validateMediaQuery_allow_list [of "\<lambda>q. min_width_query ''100px''" "js ''screen and (min-width: 100px)''"]
    validateMediaQuery_allow_list [of "\<lambda>q. mq_container ''media-query-list'' ''tv'' [mq_leaf ''media-type'' ''tv'']" "js ''tv''"]
  by (simp add: min_width_query_def mq_container_def mq_leaf_def js_def)

text \<open>
  Claim C9. Two queries whose parsed trees hold the same tokens of the types \<open>media-type\<close>,
  \<open>keyword\<close> and \<open>media-feature\<close> get the same verdict: nodes of any other type, the value
  after the colon of a feature expression among them, are never inspected and cannot cause
  a rejection. (The hypothesis compares the sets of inspected tokens, which agree in
  particular when the trees agree node by node on the three types.)
\<close>

theorem validateMediaQuery_ignores_other_nodes:
  "set (checked_tokens (mediaParser query1)) = set (checked_tokens (mediaParser query2))
   \<Longrightarrow> validateMediaQuery mediaParser query1 = validateMediaQuery mediaParser query2"
proof -
  assume eq: "set (checked_tokens (mediaParser query1)) = set (checked_tokens (mediaParser query2))"
  define ok where "ok = (\<lambda>(t, v). token_ok (MQNode t v None))"
  have tok: "token_ok m = ok (mq_type m, mq_value m)" for m
    by (simp add: ok_def token_ok_def validateMediaType_def)
  have all: "(\<forall>m \<in> set (mq_all tree). token_ok m) \<longleftrightarrow> (\<forall>p \<in> set (checked_tokens tree). ok p)" for tree
  proof
    assume "\<forall>m \<in> set (mq_all tree). token_ok m"
    then show "\<forall>p \<in> set (checked_tokens tree). ok p"
      by (auto simp: checked_tokens_def tok)
  next
    assume h: "\<forall>p \<in> set (checked_tokens tree). ok p"
    show "\<forall>m \<in> set (mq_all tree). token_ok m"
    proof
      fix m assume m: "m \<in> set (mq_all tree)"
      show "token_ok m"
      proof (cases "has nodeTypes (mq_type m)")
        case True
        with m have "(mq_type m, mq_value m) \<in> set (checked_tokens tree)"
          by (auto simp: checked_tokens_def)
        with h show ?thesis by (auto simp: tok)
      next
        case False
        then show ?thesis by (simp add: token_ok_def)
      qed
    qed
  qed
  show ?thesis
    by (simp add: validateMediaQuery_def validate_stack_iff all eq)
qed

lemma checked_tokens_min_width:
  "checked_tokens (min_width_query v) =
     [(js ''media-type'', js ''screen''), (js ''keyword'', js ''and''),
      (js ''media-feature'', js ''min-width'')]"
  by (simp add: checked_tokens_def min_width_query_def mq_container_def mq_leaf_def has_iff
        nodeTypes_def js_def)

theorem validateMediaQuery_ignores_other_nodes_witness:
  "validateMediaQuery
      (\<lambda>q. if q = js ''a'' then min_width_query ''100px'' else min_width_query ''\"><script>'')
      (js ''a'')
   = validateMediaQuery
      (\<lambda>q. if q = js ''a'' then min_width_query ''100px'' else min_width_query ''\"><script>'')
      (js ''b'')"
  using validateMediaQuery_ignores_other_nodes
    [of "\<lambda>q. if q = js ''a'' then min_width_query ''100px'' else min_width_query ''\"><script>''"
        "js ''a''" "js ''b''"]
  by (simp add: checked_tokens_min_width js_def)

section \<open>Properties of pruneSource\<close>

text \<open>
  Claim C8, as amended. For a style with an associated asset and a \<open>minimumExternalSize\<close>
  above zero: when the length of the serialized non-critical sheet, counted in UTF-16 code
  units as \<open>.length\<close> counts, is below \<open>minimumExternalSize\<close>, \<open>pruneSource\<close> deletes the
  asset and returns true; otherwise it stores the non-critical sheet under the asset's
  name, over the previous content.
\<close>

theorem pruneSource_threshold:
  assumes "asset style = Some a" and "minimumExternalSize opts = Some minSize" and "0 < minSize"
  shows "(int (length sheetInverse) < minSize \<longrightarrow>
            pruneSource opts isStyleInlined style before sheetInverse c
              = (True, c\<lparr>assets := (assets c)(assetName style := None)\<rparr>))
       \<and> (\<not> int (length sheetInverse) < minSize \<longrightarrow>
            pruneSource opts isStyleInlined style before sheetInverse c
              = (isStyleInlined,
                 c\<lparr>assets := (assets c)(assetName style \<mapsto>
                      SourceMapSource sheetInverse (assetName style) before)\<rparr>))"
  using assms by (simp add: pruneSource_def deleteAsset_def)

theorem pruneSource_threshold_witness:
  "pruneSource \<lparr>minimumExternalSize = Some 20\<rparr> False example_style
       (js ''h1{color:red}h2{color:blue}'') (js ''h2{color:blue}'') example_compilation
     = (True, \<lparr>assets = Map.empty, warnings = []\<rparr>)
   \<and> pruneSource \<lparr>minimumExternalSize = Some 14\<rparr> False example_style
       (js ''h1{color:red}h2{color:blue}'') (js ''h2{color:blue}'') example_compilation
     = (False, \<lparr>assets = [js ''main.css'' \<mapsto>
          SourceMapSource (js ''h2{color:blue}'') (js ''main.css'') (js ''h1{color:red}h2{color:blue}'')],
          warnings = []\<rparr>)"
  using pruneSource_threshold [of example_style "RawSource (js ''h1{color:red}h2{color:blue}'')"
      "\<lparr>minimumExternalSize = Some 20\<rparr>" 20 "js ''h2{color:blue}''" False
      "js ''h1{color:red}h2{color:blue}''" example_compilation]
    pruneSource_threshold [of example_style "RawSource (js ''h1{color:red}h2{color:blue}'')"
      "\<lparr>minimumExternalSize = Some 14\<rparr>" 14 "js ''h2{color:blue}''" False
      "js ''h1{color:red}h2{color:blue}''" example_compilation]
  by (simp add: example_style_def example_compilation_def js_def)

text \<open>
  Claim C8 as stated measures the sheet in bytes. A sheet of 16 code units that takes 17
  bytes is not fewer bytes than a \<open>minimumExternalSize\<close> of 17, and \<open>pruneSource\<close> deletes
  the asset all the same instead of writing the sheet back.
\<close>

theorem pruneSource_counts_code_units:
  "length accented_sheet = 16
   \<and> byte_size accented_sheet = 17
   \<and> pruneSource \<lparr>minimumExternalSize = Some 17\<rparr> False example_style
       (js ''h1{color:red}.caf'' @ [0xE9] @ js ''{color:red}'') accented_sheet example_compilation
     = (True, \<lparr>assets = Map.empty, warnings = []\<rparr>)"
proof -
  have l: "length accented_sheet = 16" by code_simp
  have b: "byte_size accented_sheet = 17" by code_simp
  have "pruneSource \<lparr>minimumExternalSize = Some 17\<rparr> False example_style
       (js ''h1{color:red}.caf'' @ [0xE9] @ js ''{color:red}'') accented_sheet example_compilation
     = (True, \<lparr>assets = Map.empty, warnings = []\<rparr>)"
    by (simp add: pruneSource_def deleteAsset_def l example_style_def example_compilation_def)
  with l b show ?thesis by simp
qed

end
